theory Spec2Isabelle
  imports Complex_Main
begin

section \<open>Data model of the Bingo peer (src/bingo.js, src/relay.js)\<close>

text \<open>
  One peer is one \<open>BingoApp\<close> object together with its \<open>Relay\<close>. The object's fields
  become a record; every method becomes a function from state to state. Messages handed
  to \<open>Relay.send\<close> are appended to the field \<open>sent\<close>; browser timers are entries of the
  field \<open>timers\<close>, keyed by the handle that \<open>setTimeout\<close>/\<open>setInterval\<close> returned.
\<close>

type_synonym clientID = string

datatype role = Player | Host

text \<open>The code assigns only \<open>'joining'\<close> and \<open>'playing'\<close> to \<open>game.status\<close>.\<close>

datatype status = Joining | Playing

text \<open>The wire messages built by the methods of \<open>Relay\<close>, one constructor per command tag.\<close>

datatype command =
    HostIdentify
  | IAmHost clientID
  | Join clientID
  | Joined clientID
  | Hold clientID
  | Leave clientID
  | Players "clientID list"
  | Start
  | Reset
  | Call int "int list"
  | Claim clientID "int list"
  | ClaimMade clientID
  | ClaimValid clientID
  | ClaimInvalid clientID
  | Unrecognised string

text \<open>What a timer runs when it fires: the bodies of the arrow functions given to
  \<open>setTimeout\<close> and \<open>setInterval\<close> in bingo.js.\<close>

datatype timer_action =
    PossiblyAssumeHost
  | GetReady
  | CallNumber
  | TryToJoinGame
  | ClearStatus
  | AnnounceClaimValid clientID
  | AnnounceClaimInvalid clientID

text \<open>A timer is one-shot or repeating and carries its delay in milliseconds.\<close>

datatype timer = Timeout int timer_action | Interval int timer_action

record party =
  host :: "clientID option"
  role :: role
  players :: "clientID list"

record game =
  status :: status
  card' :: "int list"
  called :: "int list"
  disqualified :: "clientID list"

text \<open>The slots of the page that the methods write to. A rendered list is kept as the
  list of what each rendered item shows: for a player its id and the two CSS flags
  \<open>you\<close> and \<open>host\<close>, for a card number the flag \<open>called\<close>.\<close>

record elements =
  el_status :: string
  el_players :: "(clientID \<times> bool \<times> bool) list"
  el_called :: "int list"
  el_next :: "int option"
  el_gamecard :: "(int \<times> bool) list"
  startButton_disabled :: bool
  resetButton_disabled :: bool
  claimButton_disabled :: bool

record app =
  clientID :: clientID
  sent :: "command list"
  elements :: elements
  party :: party
  game :: game
  waitingToJoin :: bool
  this_role :: "role option"
  hostWaitTimeout :: "nat option"
  getReadyInterval :: "nat option"
  callingInterval :: "nat option"
  gameWaitingTimeout :: "nat option"
  timers :: "(nat \<times> timer) list"
  nextHandle :: nat
  class_started :: bool
  class_finished :: bool

section \<open>Draw generator\<close>

text \<open>
  \<open>Math.random()\<close> is a number \<open>u\<close> with \<open>0 \<le> u < 1\<close>; the functions below take the
  values it returns as an explicit argument. \<open>generateRandomNumber\<close> is
  \<open>Math.floor(Math.random() * (max - min + 1)) + min\<close> for integers \<open>min\<close> and \<open>max\<close>,
  computed here in exact arithmetic. The code multiplies in double precision, that is, it
  rounds the exact product to the nearest double before taking the floor. Where the exact
  product lies within that rounding of an integer the code's value can be the neighbouring
  integer: for \<open>Math.random() = 0.6\<close> (a double just below \<open>3/5\<close>) and \<open>max - min + 1 = 5\<close>
  the code's product is \<open>3.0\<close> while the exact one is just below \<open>3\<close>. The theorems
  below rely, at arbitrary draws, only on the value lying in \<open>[min, max]\<close> and on each
  value of the range being produced by some draw. Particular draws are named only where
  the exact product is at least \<open>1/10\<close> away from the nearest integer, or is an integer
  that the double product gives exactly (\<open>1/2 * 4\<close>, \<open>1/2 * 90\<close>, \<open>0 * 90\<close>).
\<close>

definition generateRandomNumber :: "int \<Rightarrow> int \<Rightarrow> real \<Rightarrow> int" where
  "generateRandomNumber mn mx u = \<lfloor>u * of_int (mx - mn + 1)\<rfloor> + mn"

text \<open>
  The loops that draw until a condition holds consume the list of values that
  \<open>Math.random()\<close> returns, in order. They yield \<open>None\<close> when the loop is still running
  after the last supplied draw, and otherwise the result with the unused draws.

  \<open>generateRandomNumbers\<close>: \<open>while (numbers.length < length)\<close>, push the draw when
  \<open>numbers.indexOf(r) === -1\<close>. The requested length of the array is a natural number.
\<close>

fun generateRandomNumbers_loop ::
  "int \<Rightarrow> int \<Rightarrow> nat \<Rightarrow> int list \<Rightarrow> real list \<Rightarrow> (int list \<times> real list) option" where
  "generateRandomNumbers_loop mn mx len numbers [] =
     (if length numbers < len then None else Some (numbers, []))"
| "generateRandomNumbers_loop mn mx len numbers (u # rs) =
     (if length numbers < len
      then (let r = generateRandomNumber mn mx u
            in generateRandomNumbers_loop mn mx len
                 (if r \<notin> set numbers then numbers @ [r] else numbers) rs)
      else Some (numbers, u # rs))"

definition generateRandomNumbers ::
  "int \<Rightarrow> int \<Rightarrow> nat \<Rightarrow> real list \<Rightarrow> (int list \<times> real list) option" where
  "generateRandomNumbers mn mx len rs = generateRandomNumbers_loop mn mx len [] rs"

text \<open>
  \<open>generateRandomNumberNotAlreadyCalled\<close>: \<open>number\<close> starts as \<open>false\<close> and the loop runs
  \<open>while (!number)\<close>, so a draw of \<open>0\<close> that is not in the array is stored but does not
  end the loop (\<open>!0\<close> is true).
\<close>

fun generateRandomNumberNotAlreadyCalled ::
  "int \<Rightarrow> int \<Rightarrow> int list \<Rightarrow> real list \<Rightarrow> (int \<times> real list) option" where
  "generateRandomNumberNotAlreadyCalled mn mx array [] = None"
| "generateRandomNumberNotAlreadyCalled mn mx array (u # rs) =
     (let r = generateRandomNumber mn mx u
      in if r \<notin> set array \<and> r \<noteq> 0 then Some (r, rs)
         else generateRandomNumberNotAlreadyCalled mn mx array rs)"

section \<open>Claim verification\<close>

text \<open>\<open>Array.prototype.slice(a, b)\<close> for \<open>0 \<le> a \<le> b\<close>: both ends are clamped to the length.\<close>

definition slice :: "nat \<Rightarrow> nat \<Rightarrow> 'a list \<Rightarrow> 'a list" where
  "slice a b xs = take (b - a) (drop a xs)"

text \<open>The loop \<open>for (let i = 0; i < gamecard.length; i += 5) rows.push(gamecard.slice(i, i + 5))\<close>.\<close>

function rows_loop :: "nat \<Rightarrow> 'a list \<Rightarrow> 'a list list \<Rightarrow> 'a list list" where
  "rows_loop i gamecard rows =
     (if i < length gamecard
      then rows_loop (i + 5) gamecard (rows @ [slice i (i + 5) gamecard])
      else rows)"
  by pat_completeness auto
termination
  by (relation "measure (\<lambda>(i, gamecard, rows). length gamecard - i)") auto

text \<open>\<open>gamecard.filter((_, i) => i % 5 === column)\<close>: filtering on the index.\<close>

definition filter_index :: "(nat \<Rightarrow> bool) \<Rightarrow> 'a list \<Rightarrow> 'a list" where
  "filter_index p xs = map fst (filter (\<lambda>(x, i). p i) (zip xs [0..<length xs]))"

definition columns_of :: "'a list \<Rightarrow> 'a list list" where
  "columns_of gamecard = map (\<lambda>column. filter_index (\<lambda>i. i mod 5 = column) gamecard) [0..<5]"

text \<open>The final loop: \<open>claimValid\<close> is set when an entry passes \<open>every(includes)\<close> and is
  never reset.\<close>

fun check_loop :: "int list \<Rightarrow> int list list \<Rightarrow> bool \<Rightarrow> bool" where
  "check_loop cs [] claimValid = claimValid"
| "check_loop cs (rc # rest) claimValid =
     check_loop cs rest (if list_all (\<lambda>number. number \<in> set cs) rc then True else claimValid)"

definition verifyClaim :: "app \<Rightarrow> int list \<Rightarrow> bool" where
  "verifyClaim s gamecard =
     (let rows = rows_loop 0 gamecard [];
          columns = columns_of gamecard;
          cardRowsAndCols = rows @ columns
      in check_loop (called (game s)) cardRowsAndCols False)"

section \<open>Relay: outgoing messages\<close>

text \<open>\<open>Relay.send\<close> serialises the message at once (\<open>JSON.stringify\<close>), so a list passed to
  it is the list as it is at the time of the call.\<close>

definition send :: "command \<Rightarrow> app \<Rightarrow> app" where
  "send c s = s\<lparr>sent := sent s @ [c]\<rparr>"

definition getGameHost :: "app \<Rightarrow> app" where
  "getGameHost s = send HostIdentify s"

definition joinGame :: "app \<Rightarrow> app" where
  "joinGame s = send (Join (clientID s)) s"

definition joined :: "clientID \<Rightarrow> app \<Rightarrow> app" where
  "joined c s = send (Joined c) s"

definition hold :: "app \<Rightarrow> app" where
  "hold s = send (Hold (clientID s)) s"

definition relay_leaveGame :: "app \<Rightarrow> app" where
  "relay_leaveGame s = send (Leave (clientID s)) s"

definition relay_startGame :: "app \<Rightarrow> app" where
  "relay_startGame s = send Start s"

definition relay_resetGame :: "app \<Rightarrow> app" where
  "relay_resetGame s = send Reset s"

definition callNumber :: "int \<Rightarrow> int list \<Rightarrow> app \<Rightarrow> app" where
  "callNumber number calledNumbers s = send (Call number calledNumbers) s"

definition claim :: "int list \<Rightarrow> app \<Rightarrow> app" where
  "claim gamecard s = send (Claim (clientID s) gamecard) s"

definition claimMade :: "clientID \<Rightarrow> app \<Rightarrow> app" where
  "claimMade claimer s = send (ClaimMade claimer) s"

definition claimValid :: "clientID \<Rightarrow> app \<Rightarrow> app" where
  "claimValid claimer s = send (ClaimValid claimer) s"

definition claimInvalid :: "clientID \<Rightarrow> app \<Rightarrow> app" where
  "claimInvalid claimer s = send (ClaimInvalid claimer) s"

definition broadcastPlayers :: "clientID list \<Rightarrow> app \<Rightarrow> app" where
  "broadcastPlayers ps s = send (Players ps) s"

definition identifyAsHost :: "app \<Rightarrow> app" where
  "identifyAsHost s = send (IAmHost (clientID s)) s"

section \<open>Timers\<close>

text \<open>\<open>setTimeout\<close> and \<open>setInterval\<close> register a timer under a fresh handle, which is the
  value they return (\<open>nextHandle\<close> of the state before the call). \<open>clearTimeout\<close> and
  \<open>clearInterval\<close> remove the timer with the given handle, and do nothing for
  \<open>undefined\<close> or for a handle that is not registered.\<close>

definition setTimer :: "timer \<Rightarrow> app \<Rightarrow> app" where
  "setTimer t s = s\<lparr>timers := timers s @ [(nextHandle s, t)], nextHandle := Suc (nextHandle s)\<rparr>"

fun clearTimer :: "nat option \<Rightarrow> app \<Rightarrow> app" where
  "clearTimer None s = s"
| "clearTimer (Some h) s = s\<lparr>timers := filter (\<lambda>(k, t). k \<noteq> h) (timers s)\<rparr>"

section \<open>BingoApp: state, roster and election\<close>

definition setInitialState :: "app \<Rightarrow> app" where
  "setInitialState s =
     s\<lparr>elements := (elements s)\<lparr>el_status := ''Waiting to join...'', el_called := [],
          el_next := None, startButton_disabled := True, resetButton_disabled := True,
          claimButton_disabled := True\<rparr>,
       game := \<lparr>status = Joining, card' = [], called = [], disqualified = []\<rparr>\<rparr>"

definition getCurrentHost :: "app \<Rightarrow> app" where
  "getCurrentHost s = getGameHost s"

definition updatePlayerList :: "app \<Rightarrow> app" where
  "updatePlayerList s =
     s\<lparr>elements := (elements s)\<lparr>el_players :=
          map (\<lambda>player. (player, player = clientID s, Some player = host (party s)))
              (players (party s))\<rparr>\<rparr>"

definition addPlayer :: "clientID \<Rightarrow> app \<Rightarrow> app" where
  "addPlayer playerId s =
     updatePlayerList (s\<lparr>party := (party s)\<lparr>players := players (party s) @ [playerId]\<rparr>\<rparr>)"

definition removePlayer :: "clientID \<Rightarrow> app \<Rightarrow> app" where
  "removePlayer playerId s =
     updatePlayerList (s\<lparr>party := (party s)\<lparr>players :=
        filter (\<lambda>player. player \<noteq> playerId) (players (party s))\<rparr>\<rparr>)"

definition becomeHost :: "app \<Rightarrow> app" where
  "becomeHost s =
     (let s1 = s\<lparr>party := (party s)\<lparr>role := Host\<rparr>\<rparr>;
          s2 = s1\<lparr>party := (party s1)\<lparr>host := Some (clientID s1)\<rparr>\<rparr>;
          s3 = s2\<lparr>this_role := Some Host\<rparr>;
          s4 = identifyAsHost s3;
          s5 = s4\<lparr>waitingToJoin := False\<rparr>
      in addPlayer (clientID s5) s5)"

definition possiblyAssumeHost :: "app \<Rightarrow> app" where
  "possiblyAssumeHost s = (if length (players (party s)) < 1 then becomeHost s else s)"

definition tryToJoinGame :: "app \<Rightarrow> app" where
  "tryToJoinGame s =
     (let s1 = joinGame s
      in s1\<lparr>elements := (elements s1)\<lparr>el_status := ''Trying to join game...''\<rparr>\<rparr>)"

definition leaveGame :: "app \<Rightarrow> app" where
  "leaveGame s = relay_leaveGame s"

definition getReady :: "app \<Rightarrow> app" where
  "getReady s =
     (let s1 = s\<lparr>elements := (elements s)\<lparr>el_status := ''Waiting for players...''\<rparr>\<rparr>
      in if role (party s1) = Host \<and> status (game s1) \<noteq> Playing \<and> length (players (party s1)) > 1
         then (let s2 = s1\<lparr>elements := (elements s1)\<lparr>el_status := ''Ready to start''\<rparr>\<rparr>;
                   s3 = s2\<lparr>elements := (elements s2)\<lparr>startButton_disabled := False\<rparr>\<rparr>
               in clearTimer (getReadyInterval s3) s3)
         else s1)"

definition startGame :: "app \<Rightarrow> app" where
  "startGame s = (if role (party s) = Host then relay_startGame s else s)"

definition resetGame :: "app \<Rightarrow> app" where
  "resetGame s = (if role (party s) = Host then relay_resetGame s else s)"

definition enableClaimButton :: "app \<Rightarrow> app" where
  "enableClaimButton s = s\<lparr>elements := (elements s)\<lparr>claimButton_disabled := False\<rparr>\<rparr>"

definition lodgeClaim :: "app \<Rightarrow> app" where
  "lodgeClaim s =
     (let s1 = s\<lparr>elements := (elements s)\<lparr>claimButton_disabled := True\<rparr>\<rparr>
      in claim (card' (game s1)) s1)"

section \<open>BingoApp: card, display and draw loop\<close>

definition updateGameCardDisplay :: "app \<Rightarrow> app" where
  "updateGameCardDisplay s =
     s\<lparr>elements := (elements s)\<lparr>el_gamecard :=
          map (\<lambda>number. (number, number \<in> set (called (game s)))) (card' (game s))\<rparr>\<rparr>"

definition updateCalledDisplay :: "app \<Rightarrow> app" where
  "updateCalledDisplay s = s\<lparr>elements := (elements s)\<lparr>el_called := called (game s)\<rparr>\<rparr>"

definition generateGameCard :: "app \<Rightarrow> real list \<Rightarrow> (app \<times> real list) option" where
  "generateGameCard s rs =
     (case generateRandomNumbers 1 90 25 rs of
        None \<Rightarrow> None
      | Some (numbers, rs') \<Rightarrow>
          Some (updateGameCardDisplay (s\<lparr>game := (game s)\<lparr>card' := numbers\<rparr>\<rparr>), rs'))"

definition startCalling :: "app \<Rightarrow> app" where
  "startCalling s = (setTimer (Interval 5000 CallNumber) s)\<lparr>callingInterval := Some (nextHandle s)\<rparr>"

definition pauseCalling :: "app \<Rightarrow> app" where
  "pauseCalling s = clearTimer (callingInterval s) s"

text \<open>One tick of the interval set by \<open>startCalling\<close>: the body of its arrow function.\<close>

definition callingTick :: "app \<Rightarrow> real list \<Rightarrow> (app \<times> real list) option" where
  "callingTick s rs =
     (case generateRandomNumberNotAlreadyCalled 1 90 (called (game s)) rs of
        None \<Rightarrow> None
      | Some (number, rs') \<Rightarrow>
          (let s1 = s\<lparr>game := (game s)\<lparr>called := called (game s) @ [number]\<rparr>\<rparr>;
               s2 = callNumber number (called (game s1)) s1
           in Some (if length (called (game s2)) = 90 then pauseCalling s2 else s2, rs')))"

section \<open>BingoApp: command handlers\<close>

definition commandHostIdentify :: "app \<Rightarrow> app" where
  "commandHostIdentify s = (if role (party s) = Host then identifyAsHost s else s)"

definition commandHostIdentified :: "clientID \<Rightarrow> app \<Rightarrow> app" where
  "commandHostIdentified c s =
     (let s1 = s\<lparr>party := (party s)\<lparr>host := Some c\<rparr>\<rparr>;
          s2 = clearTimer (hostWaitTimeout s1) s1
      in if waitingToJoin s2 then tryToJoinGame s2 else s2)"

definition commandJoinGame :: "clientID \<Rightarrow> app \<Rightarrow> app" where
  "commandJoinGame c s =
     (if role (party s) = Host
      then (if status (game s) = Joining
            then (let s1 = addPlayer c s;
                      s2 = joined c s1
                  in broadcastPlayers (players (party s2)) s2)
            else hold s)
      else s)"

definition commandJoinedGame :: "clientID \<Rightarrow> app \<Rightarrow> app" where
  "commandJoinedGame c s =
     (if c = clientID s
      then (let s1 = s\<lparr>waitingToJoin := False\<rparr> in clearTimer (gameWaitingTimeout s1) s1)
      else s)"

definition commandHold :: "app \<Rightarrow> app" where
  "commandHold s =
     (if waitingToJoin s
      then (let s1 = s\<lparr>elements := (elements s)\<lparr>el_status := ''Waiting for next game to start...''\<rparr>\<rparr>;
                s2 = clearTimer (gameWaitingTimeout s1) s1
            in (setTimer (Timeout 5000 TryToJoinGame) s2)\<lparr>gameWaitingTimeout := Some (nextHandle s2)\<rparr>)
      else s)"

definition commandLeaveGame :: "clientID \<Rightarrow> app \<Rightarrow> app" where
  "commandLeaveGame c s =
     (if role (party s) = Host
      then (let s1 = removePlayer c s in broadcastPlayers (players (party s1)) s1)
      else s)"

definition commandStartGame :: "app \<Rightarrow> real list \<Rightarrow> (app \<times> real list) option" where
  "commandStartGame s rs =
     (let s1 = clearTimer (getReadyInterval s) s;
          s2 = s1\<lparr>game := (game s1)\<lparr>status := Playing\<rparr>\<rparr>;
          s3 = s2\<lparr>elements := (elements s2)\<lparr>el_status := ''Game is starting...''\<rparr>\<rparr>;
          s4 = setTimer (Timeout 5000 ClearStatus) s3;
          s5 = s4\<lparr>class_started := True\<rparr>;
          s6 = enableClaimButton s5
      in case generateGameCard s6 rs of
           None \<Rightarrow> None
         | Some (s7, rs') \<Rightarrow> Some (if role (party s7) = Host then startCalling s7 else s7, rs'))"

definition commandResetGame :: "app \<Rightarrow> app" where
  "commandResetGame s =
     (let s1 = s\<lparr>class_finished := False\<rparr>;
          s2 = setInitialState s1
      in (setTimer (Interval 1000 GetReady) s2)\<lparr>getReadyInterval := Some (nextHandle s2)\<rparr>)"

text \<open>\<open>commandCall\<close> reads only \<open>command.number\<close>; the list sent along is not used.\<close>

definition commandCall :: "int \<Rightarrow> app \<Rightarrow> app" where
  "commandCall number s =
     (let s1 = (if role (party s) \<noteq> Host
                then s\<lparr>game := (game s)\<lparr>called := called (game s) @ [number]\<rparr>\<rparr>
                else s);
          s2 = updateCalledDisplay s1;
          s3 = s2\<lparr>elements := (elements s2)\<lparr>el_next := Some number\<rparr>\<rparr>
      in updateGameCardDisplay s3)"

text \<open>The delay of the outcome is \<open>generateRandomNumber(4, 8) * 1000\<close> for a valid claim
  and \<open>generateRandomNumber(3, 6) * 1000\<close> for an invalid one; the draw is the next value of
  \<open>Math.random()\<close>.\<close>

definition commandClaim :: "clientID \<Rightarrow> int list \<Rightarrow> app \<Rightarrow> real list \<Rightarrow> (app \<times> real list) option" where
  "commandClaim claimer gamecard s rs =
     (if role (party s) = Host \<and> claimer \<notin> set (disqualified (game s))
      then (let s1 = pauseCalling s;
                s2 = claimMade claimer s1
            in if verifyClaim s2 gamecard
               then (case rs of
                       [] \<Rightarrow> None
                     | u # rs' \<Rightarrow>
                         Some (setTimer (Timeout (generateRandomNumber 4 8 u * 1000)
                                                 (AnnounceClaimValid claimer)) s2, rs'))
               else (case rs of
                       [] \<Rightarrow> None
                     | u # rs' \<Rightarrow>
                         Some (setTimer (Timeout (generateRandomNumber 3 6 u * 1000)
                                                 (AnnounceClaimInvalid claimer)) s2, rs')))
      else Some (s, rs))"

definition commandClaimMade :: "clientID \<Rightarrow> app \<Rightarrow> app" where
  "commandClaimMade claimer s =
     s\<lparr>elements := (elements s)\<lparr>el_status :=
          ''Player '' @ claimer @ '' has claimed Bingo! Checking their card...''\<rparr>\<rparr>"

definition commandClaimValid :: "clientID \<Rightarrow> app \<Rightarrow> app" where
  "commandClaimValid claimer s =
     (let s1 = s\<lparr>class_started := False\<rparr>;
          s2 = s1\<lparr>class_finished := True\<rparr>;
          s3 = s2\<lparr>elements := (elements s2)\<lparr>el_status := ''Player '' @ claimer @ '' has won!''\<rparr>\<rparr>
      in s3\<lparr>elements := (elements s3)\<lparr>resetButton_disabled := False\<rparr>\<rparr>)"

definition commandClaimInvalid :: "clientID \<Rightarrow> app \<Rightarrow> app" where
  "commandClaimInvalid claimer s =
     s\<lparr>elements := (elements s)\<lparr>el_status :=
          ''Player '' @ claimer @
          '' has an invalid card! They'' @ [CHR 0x27] @ ''re disqualified and the game goes on...''\<rparr>\<rparr>"

definition commandUpdatePlayers :: "clientID list \<Rightarrow> app \<Rightarrow> app" where
  "commandUpdatePlayers ps s =
     (if role (party s) \<noteq> Host
      then fold (\<lambda>player. addPlayer player) ps (s\<lparr>party := (party s)\<lparr>players := []\<rparr>\<rparr>)
      else s)"

text \<open>The \<open>switch\<close> of \<open>handleCommand\<close>; a tag without a case does nothing.\<close>

fun handleCommand :: "command \<Rightarrow> app \<Rightarrow> real list \<Rightarrow> (app \<times> real list) option" where
  "handleCommand HostIdentify s rs = Some (commandHostIdentify s, rs)"
| "handleCommand (IAmHost c) s rs = Some (commandHostIdentified c s, rs)"
| "handleCommand (Join c) s rs = Some (commandJoinGame c s, rs)"
| "handleCommand (Joined c) s rs = Some (commandJoinedGame c s, rs)"
| "handleCommand (Hold c) s rs = Some (commandHold s, rs)"
| "handleCommand (Leave c) s rs = Some (commandLeaveGame c s, rs)"
| "handleCommand (Players ps) s rs = Some (commandUpdatePlayers ps s, rs)"
| "handleCommand Start s rs = commandStartGame s rs"
| "handleCommand Reset s rs = Some (commandResetGame s, rs)"
| "handleCommand (Call number calledNumbers) s rs = Some (commandCall number s, rs)"
| "handleCommand (Claim claimer gamecard) s rs = commandClaim claimer gamecard s rs"
| "handleCommand (ClaimMade claimer) s rs = Some (commandClaimMade claimer s, rs)"
| "handleCommand (ClaimValid claimer) s rs = Some (commandClaimValid claimer s, rs)"
| "handleCommand (ClaimInvalid claimer) s rs = Some (commandClaimInvalid claimer s, rs)"
| "handleCommand (Unrecognised tag) s rs = Some (s, rs)"

section \<open>Timer callbacks and the event loop\<close>

text \<open>The callback of the delayed outcome of an invalid claim.\<close>

definition announceClaimInvalid :: "clientID \<Rightarrow> app \<Rightarrow> app" where
  "announceClaimInvalid claimer s =
     (let s1 = s\<lparr>game := (game s)\<lparr>disqualified := disqualified (game s) @ [claimer]\<rparr>\<rparr>;
          s2 = claimInvalid claimer s1
      in startCalling s2)"

fun runAction :: "timer_action \<Rightarrow> app \<Rightarrow> real list \<Rightarrow> (app \<times> real list) option" where
  "runAction PossiblyAssumeHost s rs = Some (possiblyAssumeHost s, rs)"
| "runAction GetReady s rs = Some (getReady s, rs)"
| "runAction CallNumber s rs = callingTick s rs"
| "runAction TryToJoinGame s rs = Some (tryToJoinGame s, rs)"
| "runAction ClearStatus s rs = Some (s\<lparr>elements := (elements s)\<lparr>el_status := []\<rparr>\<rparr>, rs)"
| "runAction (AnnounceClaimValid claimer) s rs = Some (claimValid claimer s, rs)"
| "runAction (AnnounceClaimInvalid claimer) s rs = Some (announceClaimInvalid claimer s, rs)"

text \<open>A registered timer fires: a one-shot timer is unregistered first, an interval stays
  registered. A handle that is not registered cannot fire.\<close>

definition fire :: "nat \<Rightarrow> app \<Rightarrow> real list \<Rightarrow> (app \<times> real list) option" where
  "fire h s rs =
     (case map_of (timers s) h of
        None \<Rightarrow> Some (s, rs)
      | Some (Timeout d a) \<Rightarrow> runAction a (clearTimer (Some h) s) rs
      | Some (Interval d a) \<Rightarrow> runAction a s rs)"

text \<open>What can happen to a peer: a message arrives, a timer fires, an enabled button is
  clicked, the page unloads (the listeners of \<open>registerEvents\<close>).\<close>

datatype event = Receive command | Fire nat | ClickStart | ClickReset | ClickClaim | BeforeUnload

fun step :: "event \<Rightarrow> app \<Rightarrow> real list \<Rightarrow> (app \<times> real list) option" where
  "step (Receive c) s rs = handleCommand c s rs"
| "step (Fire h) s rs = fire h s rs"
| "step ClickStart s rs =
     Some (if startButton_disabled (elements s) then s else startGame s, rs)"
| "step ClickReset s rs =
     Some (if resetButton_disabled (elements s) then s else resetGame s, rs)"
| "step ClickClaim s rs =
     Some (if claimButton_disabled (elements s) then s else lodgeClaim s, rs)"
| "step BeforeUnload s rs = Some (leaveGame s, rs)"

fun run :: "event list \<Rightarrow> app \<Rightarrow> real list \<Rightarrow> (app \<times> real list) option" where
  "run [] s rs = Some (s, rs)"
| "run (e # es) s rs = (case step e s rs of None \<Rightarrow> None | Some (s', rs') \<Rightarrow> run es s' rs')"

text \<open>The constructor, for a relay whose \<open>generateClientId\<close> returned \<open>cid\<close>, on a page whose
  slots hold \<open>els\<close> and whose element carries neither class; \<open>u\<close> is the draw for the
  host-election timeout \<open>generateRandomNumber(5000, 8000)\<close>.\<close>

definition constructor :: "clientID \<Rightarrow> elements \<Rightarrow> real \<Rightarrow> app" where
  "constructor cid els u =
     (let s0 = \<lparr>clientID = cid, sent = [], elements = els,
                party = \<lparr>host = None, role = Player, players = []\<rparr>,
                game = \<lparr>status = Joining, card' = [], called = [], disqualified = []\<rparr>,
                waitingToJoin = True, this_role = None,
                hostWaitTimeout = None, getReadyInterval = None, callingInterval = None,
                gameWaitingTimeout = None, timers = [], nextHandle = 1,
                class_started = False, class_finished = False\<rparr>;
          s1 = setInitialState s0;
          s2 = getCurrentHost s1;
          s3 = (setTimer (Timeout (generateRandomNumber 5000 8000 u) PossiblyAssumeHost) s2)
                 \<lparr>hostWaitTimeout := Some (nextHandle s2)\<rparr>
      in (setTimer (Interval 1000 GetReady) s3)\<lparr>getReadyInterval := Some (nextHandle s3)\<rparr>)"

section \<open>Properties of states and draws\<close>

text \<open>The called list is duplicate-free and every entry lies in \<open>[1, 90]\<close>.\<close>

definition called_ok :: "app \<Rightarrow> bool" where
  "called_ok s \<longleftrightarrow>
     distinct (called (game s)) \<and> list_all (\<lambda>n. 1 \<le> n \<and> n \<le> 90) (called (game s))"

text \<open>Every value returned by \<open>Math.random()\<close> lies in \<open>[0, 1)\<close>.\<close>

definition draws_ok :: "real list \<Rightarrow> bool" where
  "draws_ok rs \<longleftrightarrow> list_all (\<lambda>u. 0 \<le> u \<and> u < 1) rs"

section \<open>Example peers\<close>

text \<open>A page with empty slots, and the peer \<open>c0ffee\<close> right after its constructor.\<close>

definition page0 :: elements where
  "page0 = \<lparr>el_status = [], el_players = [], el_called = [], el_next = None, el_gamecard = [],
            startButton_disabled = False, resetButton_disabled = False,
            claimButton_disabled = False\<rparr>"

definition peer0 :: app where
  "peer0 = constructor ''c0ffee'' page0 (1 / 2)"

text \<open>The same peer after its election timeout (handle 1) fired with nobody else around.\<close>

definition host0 :: app where
  "host0 = (case run [Fire 1] peer0 [] of Some (s, rs) \<Rightarrow> s | None \<Rightarrow> peer0)"

text \<open>A game on that host: \<open>decaf\<close> joins, the ready poll (handle 2) enables the start
  button, the host clicks it and receives its own start message, and the draw interval
  (handle 4) ticks five times. The draws make the card \<open>1..25\<close> and the calls
  \<open>1, 6, 11, 16, 21\<close>.\<close>

definition card_draws :: "real list" where
  "card_draws = map (\<lambda>k. (2 * real k + 1) / 180) [0..<25]"

definition game_events :: "event list" where
  "game_events = [Receive (Join ''decaf''), Fire 2, ClickStart, Receive Start,
                  Fire 4, Fire 4, Fire 4, Fire 4, Fire 4]"

definition game_draws :: "real list" where
  "game_draws = card_draws @ [1 / 180, 11 / 180, 21 / 180, 31 / 180, 41 / 180]"

definition host1 :: app where
  "host1 = (case run game_events host0 game_draws of Some (s, rs) \<Rightarrow> s | None \<Rightarrow> host0)"

text \<open>A card that shares no number with the calls \<open>1, 6, 11, 16, 21\<close>, and the example host
  after \<open>decaf\<close> claimed with it: the claim was judged invalid (outcome timer, handle 5)
  and \<open>decaf\<close> is disqualified.\<close>

definition forged_card :: "int list" where
  "forged_card = [31..55]"

definition host2 :: app where
  "host2 = (case run [Receive (Claim ''decaf'' forged_card), Fire 5] host1 [1 / 2] of
              Some (s, rs) \<Rightarrow> s | None \<Rightarrow> host1)"

text \<open>A second peer, \<open>decaf\<close>, after its constructor, and after it heard the host, its
  own admission and the roster.\<close>

definition peer_decaf :: app where
  "peer_decaf = constructor ''decaf'' page0 (1 / 4)"

definition player1 :: app where
  "player1 = (case run [Receive (IAmHost ''c0ffee''), Receive (Joined ''decaf''),
                        Receive (Players [''c0ffee'', ''decaf''])] peer_decaf [] of
                Some (s, rs) \<Rightarrow> s | None \<Rightarrow> peer_decaf)"

text \<open>The example host with the numbers \<open>1\<close> to \<open>89\<close> called, and after one more tick of
  its draw interval.\<close>

definition host89 :: app where
  "host89 = host1\<lparr>game := (game host1)\<lparr>called := [1..89]\<rparr>\<rparr>"

definition host90 :: app where
  "host90 = (case run [Fire 4] host89 [179 / 180] of Some (s, rs) \<Rightarrow> s | None \<Rightarrow> host89)"

text \<open>The peer \<open>c0ffee\<close> again, but this time it hears the call of the number 5 twice
  (another host is drawing, and the transport may deliver a message more than once)
  before its election timeout fires.\<close>

definition host_dup :: app where
  "host_dup = (case run [Receive (Call 5 [5]), Receive (Call 5 [5]), Fire 1] peer0 [] of
                 Some (s, rs) \<Rightarrow> s | None \<Rightarrow> peer0)"

text \<open>The host with 89 numbers called receives two claims with a card of uncalled numbers
  before the outcome of the first is due. Both outcome timers (handles 5 and 6) fire and
  each starts a draw interval (handles 7 and 8); then the interval 8 ticks and draws the
  last number.\<close>

definition host_two :: app where
  "host_two = (case run [Receive (Claim ''decaf'' [91..115]), Receive (Claim ''beef'' [91..115]),
                         Fire 5, Fire 6, Fire 8] host89 [1 / 2, 1 / 2, 179 / 180] of
                 Some (s, rs) \<Rightarrow> s | None \<Rightarrow> host89)"

section \<open>The example peers, evaluated\<close>

lemma peer0_eq:
  "peer0 =
    \<lparr>clientID = ''c0ffee'', sent = [HostIdentify],
     elements = \<lparr>el_status = ''Waiting to join...'', el_players = [], el_called = [],
         el_next = None, el_gamecard = [], startButton_disabled = True,
         resetButton_disabled = True, claimButton_disabled = True\<rparr>,
     party = \<lparr>host = None, role = Player, players = []\<rparr>,
     game = \<lparr>status = Joining, card' = [], called = [], disqualified = []\<rparr>,
     waitingToJoin = True, this_role = None, hostWaitTimeout = Some 1,
     getReadyInterval = Some 2, callingInterval = None, gameWaitingTimeout = None,
     timers = [(1, Timeout 6500 PossiblyAssumeHost), (2, Interval 1000 GetReady)],
     nextHandle = 3, class_started = False, class_finished = False\<rparr>"
  by code_simp

lemma host0_eq:
  "host0 =
    \<lparr>clientID = ''c0ffee'', sent = [HostIdentify, IAmHost ''c0ffee''],
     elements = \<lparr>el_status = ''Waiting to join...'', el_players = [(''c0ffee'', True, True)],
         el_called = [], el_next = None, el_gamecard = [], startButton_disabled = True,
         resetButton_disabled = True, claimButton_disabled = True\<rparr>,
     party = \<lparr>host = Some ''c0ffee'', role = Host, players = [''c0ffee'']\<rparr>,
     game = \<lparr>status = Joining, card' = [], called = [], disqualified = []\<rparr>,
     waitingToJoin = False, this_role = Some Host, hostWaitTimeout = Some 1,
     getReadyInterval = Some 2, callingInterval = None, gameWaitingTimeout = None,
     timers = [(2, Interval 1000 GetReady)],
     nextHandle = 3, class_started = False, class_finished = False\<rparr>"
  by code_simp

lemma host1_eq:
  "host1 =
    \<lparr>clientID = ''c0ffee'',
     sent = [HostIdentify, IAmHost ''c0ffee'', Joined ''decaf'', Players [''c0ffee'', ''decaf''],
             Start, Call 1 [1], Call 6 [1, 6], Call 11 [1, 6, 11], Call 16 [1, 6, 11, 16],
             Call 21 [1, 6, 11, 16, 21]],
     elements = \<lparr>el_status = ''Game is starting...'',
         el_players = [(''c0ffee'', True, True), (''decaf'', False, False)],
         el_called = [], el_next = None,
         el_gamecard = map (\<lambda>n. (n, False)) [1..25],
         startButton_disabled = False, resetButton_disabled = True,
         claimButton_disabled = False\<rparr>,
     party = \<lparr>host = Some ''c0ffee'', role = Host, players = [''c0ffee'', ''decaf'']\<rparr>,
     game = \<lparr>status = Playing,
              card' = [1..25],
              called = [1, 6, 11, 16, 21], disqualified = []\<rparr>,
     waitingToJoin = False, this_role = Some Host, hostWaitTimeout = Some 1,
     getReadyInterval = Some 2, callingInterval = Some 4, gameWaitingTimeout = None,
     timers = [(3, Timeout 5000 ClearStatus), (4, Interval 5000 CallNumber)],
     nextHandle = 5, class_started = True, class_finished = False\<rparr>"
  by code_simp

lemma host2_eq:
  "host2 = host1\<lparr>sent := sent host1 @ [ClaimMade ''decaf'', ClaimInvalid ''decaf''],
                 game := (game host1)\<lparr>disqualified := [''decaf'']\<rparr>,
                 callingInterval := Some 6,
                 timers := [(3, Timeout 5000 ClearStatus), (6, Interval 5000 CallNumber)],
                 nextHandle := 7\<rparr>"
  by code_simp

lemma peer_decaf_eq:
  "peer_decaf = peer0\<lparr>clientID := ''decaf'',
                      timers := [(1, Timeout 5750 PossiblyAssumeHost), (2, Interval 1000 GetReady)]\<rparr>"
  by code_simp

lemma player1_eq:
  "player1 =
     peer_decaf\<lparr>sent := [HostIdentify, Join ''decaf''],
                elements := (elements peer_decaf)\<lparr>el_status := ''Trying to join game...'',
                   el_players := [(''c0ffee'', False, True), (''decaf'', True, False)]\<rparr>,
                party := \<lparr>host = Some ''c0ffee'', role = Player, players = [''c0ffee'', ''decaf'']\<rparr>,
                waitingToJoin := False,
                timers := [(2, Interval 1000 GetReady)]\<rparr>"
  by code_simp

section \<open>Projections through the helpers\<close>

lemma send_simps [simp]:
  "game (send c s) = game s" "party (send c s) = party s" "timers (send c s) = timers s"
  "sent (send c s) = sent s @ [c]" "clientID (send c s) = clientID s"
  by (simp_all add: send_def)

lemma clearTimer_simps [simp]:
  "game (clearTimer h s) = game s" "party (clearTimer h s) = party s"
  "sent (clearTimer h s) = sent s" "clientID (clearTimer h s) = clientID s"
  by (cases h; simp)+

lemma setTimer_simps [simp]:
  "game (setTimer t s) = game s" "party (setTimer t s) = party s"
  "sent (setTimer t s) = sent s" "clientID (setTimer t s) = clientID s"
  by (simp_all add: setTimer_def)

lemma updatePlayerList_simps [simp]:
  "game (updatePlayerList s) = game s" "party (updatePlayerList s) = party s"
  "sent (updatePlayerList s) = sent s" "clientID (updatePlayerList s) = clientID s"
  "timers (updatePlayerList s) = timers s"
  by (simp_all add: updatePlayerList_def)

lemma pauseCalling_simps [simp]:
  "game (pauseCalling s) = game s" "party (pauseCalling s) = party s"
  "sent (pauseCalling s) = sent s" "clientID (pauseCalling s) = clientID s"
  by (simp_all add: pauseCalling_def)

lemma startCalling_simps [simp]:
  "game (startCalling s) = game s" "party (startCalling s) = party s"
  "sent (startCalling s) = sent s"
  by (simp_all add: startCalling_def)

section \<open>Claim verification: rows and columns\<close>

lemma length_25_explicit:
  assumes "length (xs :: 'a list) = 25"
  obtains a0 a1 a2 a3 a4 a5 a6 a7 a8 a9 a10 a11 a12 a13 a14 a15 a16 a17 a18 a19 a20 a21 a22 a23 a24
  where "xs = [a0, a1, a2, a3, a4, a5, a6, a7, a8, a9, a10, a11, a12, a13, a14, a15, a16, a17,
               a18, a19, a20, a21, a22, a23, a24]"
  using assms by (auto simp: eval_nat_numeral length_Suc_conv)

lemma all_less_5: "(\<forall>j<(5::nat). P j) \<longleftrightarrow> P 0 \<and> P 1 \<and> P 2 \<and> P 3 \<and> P 4"
proof -
  have "\<And>j::nat. j < 5 \<longleftrightarrow> j = 0 \<or> j = 1 \<or> j = 2 \<or> j = 3 \<or> j = 4" by arith
  then show ?thesis by auto
qed

lemma ex_less_5: "(\<exists>j<(5::nat). P j) \<longleftrightarrow> P 0 \<or> P 1 \<or> P 2 \<or> P 3 \<or> P 4"
  using all_less_5[of "\<lambda>j. \<not> P j"] by blast

lemma rows_loop_25:
  "rows_loop 0 [a0, a1, a2, a3, a4, a5, a6, a7, a8, a9, a10, a11, a12, a13, a14, a15, a16, a17,
               a18, a19, a20, a21, a22, a23, a24] [] =
   [[a0, a1, a2, a3, a4], [a5, a6, a7, a8, a9], [a10, a11, a12, a13, a14],
    [a15, a16, a17, a18, a19], [a20, a21, a22, a23, a24]]"
  by (simp add: slice_def)

lemma columns_of_25:
  "columns_of [a0, a1, a2, a3, a4, a5, a6, a7, a8, a9, a10, a11, a12, a13, a14, a15, a16, a17,
               a18, a19, a20, a21, a22, a23, a24] =
   [[a0, a5, a10, a15, a20], [a1, a6, a11, a16, a21], [a2, a7, a12, a17, a22],
    [a3, a8, a13, a18, a23], [a4, a9, a14, a19, a24]]"
  by (simp add: columns_of_def filter_index_def upt_rec)

text \<open>
  Claim C1. For a card of 25 numbers, \<open>verifyClaim\<close> answers true exactly when one of the
  five rows (indices \<open>5r .. 5r+4\<close>) or one of the five columns (indices congruent to
  \<open>c\<close> modulo 5) has all its five numbers in the host's called list. Nothing else makes a
  claim valid, so a fully called diagonal alone does not.
\<close>

theorem verifyClaim_row_or_column:
  assumes "length gamecard = 25"
  shows "verifyClaim s gamecard \<longleftrightarrow>
           (\<exists>r<5. \<forall>j<5. gamecard ! (5 * r + j) \<in> set (called (game s))) \<or>
           (\<exists>c<5. \<forall>r<5. gamecard ! (5 * r + c) \<in> set (called (game s)))"
proof -
  let ?ok = "list_all (\<lambda>n. n \<in> set (called (game s)))"
  obtain a0 a1 a2 a3 a4 a5 a6 a7 a8 a9 a10 a11 a12 a13 a14 a15 a16 a17 a18 a19 a20 a21 a22 a23 a24
    where g: "gamecard = [a0, a1, a2, a3, a4, a5, a6, a7, a8, a9, a10, a11, a12, a13, a14, a15,
                          a16, a17, a18, a19, a20, a21, a22, a23, a24]"
    using assms by (rule length_25_explicit)
  have lhs: "verifyClaim s gamecard \<longleftrightarrow>
      ?ok [a0, a1, a2, a3, a4] \<or> ?ok [a5, a6, a7, a8, a9] \<or> ?ok [a10, a11, a12, a13, a14] \<or>
      ?ok [a15, a16, a17, a18, a19] \<or> ?ok [a20, a21, a22, a23, a24] \<or>
      ?ok [a0, a5, a10, a15, a20] \<or> ?ok [a1, a6, a11, a16, a21] \<or> ?ok [a2, a7, a12, a17, a22] \<or>
      ?ok [a3, a8, a13, a18, a23] \<or> ?ok [a4, a9, a14, a19, a24]"
    unfolding verifyClaim_def Let_def g rows_loop_25 columns_of_25 by auto
  have rows: "(\<exists>r<5. \<forall>j<5. gamecard ! (5 * r + j) \<in> set (called (game s))) \<longleftrightarrow>
      ?ok [a0, a1, a2, a3, a4] \<or> ?ok [a5, a6, a7, a8, a9] \<or> ?ok [a10, a11, a12, a13, a14] \<or>
      ?ok [a15, a16, a17, a18, a19] \<or> ?ok [a20, a21, a22, a23, a24]"
    unfolding g by (simp add: all_less_5 ex_less_5)
  have cols: "(\<exists>c<5. \<forall>r<5. gamecard ! (5 * r + c) \<in> set (called (game s))) \<longleftrightarrow>
      ?ok [a0, a5, a10, a15, a20] \<or> ?ok [a1, a6, a11, a16, a21] \<or> ?ok [a2, a7, a12, a17, a22] \<or>
      ?ok [a3, a8, a13, a18, a23] \<or> ?ok [a4, a9, a14, a19, a24]"
    unfolding g by (simp add: all_less_5 ex_less_5)
  show ?thesis unfolding lhs rows cols by blast
qed

text \<open>On the example host the first column \<open>1, 6, 11, 16, 21\<close> of the card is called.\<close>

theorem verifyClaim_row_or_column_witness:
  "length (card' (game host1)) = 25 \<and> verifyClaim host1 (card' (game host1))"
proof -
  have len: "length (card' (game host1)) = 25"
    by (simp add: host1_eq)
  have col: "\<exists>c<5. \<forall>r<5. card' (game host1) ! (5 * r + c) \<in> set (called (game host1))"
    by (simp add: host1_eq all_less_5 ex_less_5)
  show ?thesis
    using len col verifyClaim_row_or_column [OF len, of host1] by blast
qed

text \<open>A card whose main diagonal \<open>1, 7, 13, 19, 25\<close> is called, and nothing else, loses.\<close>

lemma verifyClaim_diagonal_example:
  "\<not> verifyClaim (host1\<lparr>game := (game host1)\<lparr>called := [1, 7, 13, 19, 25]\<rparr>\<rparr>) (card' (game host1))"
  by code_simp

section \<open>Draw generator: range and uniqueness\<close>

lemma generateRandomNumber_range:
  assumes "mn \<le> mx" "0 \<le> u" "u < 1"
  shows "mn \<le> generateRandomNumber mn mx u \<and> generateRandomNumber mn mx u \<le> mx"
proof -
  let ?n = "mx - mn + 1"
  have n: "0 < (of_int ?n :: real)" using assms(1) by simp
  have lo: "0 \<le> u * of_int ?n" using assms(2) n by simp
  have hi: "u * of_int ?n < of_int ?n" using assms(3) n by simp
  have "0 \<le> \<lfloor>u * of_int ?n\<rfloor>" using lo by simp
  moreover have "\<lfloor>u * of_int ?n\<rfloor> < ?n" using hi by (simp only: floor_less_iff)
  ultimately show ?thesis by (simp add: generateRandomNumber_def)
qed

lemma generateRandomNumbers_loop_inv:
  assumes "mn \<le> mx" "\<forall>u\<in>set rs. 0 \<le> u \<and> u < 1"
    "distinct numbers" "\<forall>x\<in>set numbers. mn \<le> x \<and> x \<le> mx" "length numbers \<le> len"
    "generateRandomNumbers_loop mn mx len numbers rs = Some (res, rs')"
  shows "length res = len \<and> distinct res \<and> (\<forall>x\<in>set res. mn \<le> x \<and> x \<le> mx)"
  using assms
proof (induction rs arbitrary: numbers)
  case Nil
  then show ?case by (auto split: if_splits)
next
  case (Cons u rs)
  show ?case
  proof (cases "length numbers < len")
    case False
    with Cons.prems show ?thesis by auto
  next
    case True
    let ?r = "generateRandomNumber mn mx u"
    let ?numbers' = "if ?r \<notin> set numbers then numbers @ [?r] else numbers"
    have r: "mn \<le> ?r \<and> ?r \<le> mx"
      using generateRandomNumber_range[of mn mx u] Cons.prems(1,2) by simp
    have step: "generateRandomNumbers_loop mn mx len ?numbers' rs = Some (res, rs')"
      using Cons.prems(6) True by (simp add: Let_def)
    have "distinct ?numbers'" using Cons.prems(3) by simp
    moreover have "\<forall>x\<in>set ?numbers'. mn \<le> x \<and> x \<le> mx" using Cons.prems(4) r by simp
    moreover have "length ?numbers' \<le> len" using True by simp
    moreover have "\<forall>u\<in>set rs. 0 \<le> u \<and> u < 1" using Cons.prems(2) by simp
    ultimately show ?thesis using Cons.IH[OF Cons.prems(1) _ _ _ _ step] by blast
  qed
qed

text \<open>
  Claim C2. For \<open>min \<le> max\<close> and a requested length of at most \<open>max - min + 1\<close>, whenever
  \<open>generateRandomNumbers(min, max, length)\<close> returns (the draws of \<open>Math.random()\<close> being in
  \<open>[0, 1)\<close>), the array it returns has exactly \<open>length\<close> entries, they are pairwise
  distinct, and each lies in \<open>[min, max]\<close>.
\<close>

theorem generateRandomNumbers_distinct_in_range:
  assumes "mn \<le> mx" "int len \<le> mx - mn + 1" "\<forall>u\<in>set rs. 0 \<le> u \<and> u < 1"
    "generateRandomNumbers mn mx len rs = Some (numbers, rs')"
  shows "length numbers = len \<and> distinct numbers \<and> (\<forall>x\<in>set numbers. mn \<le> x \<and> x \<le> mx)"
  using generateRandomNumbers_loop_inv[of mn mx rs "[]" len numbers rs'] assms
  by (simp add: generateRandomNumbers_def)

text \<open>Three numbers from \<open>1..90\<close>; the second draw repeats the first and is rejected.\<close>

theorem generateRandomNumbers_distinct_in_range_witness:
  "generateRandomNumbers 1 90 3 [1 / 2, 1 / 2, 0, 99 / 100, 1 / 3] = Some ([46, 1, 90], [1 / 3])
   \<and> length [46, 1, 90 :: int] = 3 \<and> distinct [46, 1, 90 :: int]
   \<and> list_all (\<lambda>x. 1 \<le> x \<and> x \<le> 90) [46, 1, 90 :: int]"
proof -
  have run: "generateRandomNumbers 1 90 3 [1 / 2, 1 / 2, 0, 99 / 100, 1 / 3] = Some ([46, 1, 90], [1 / 3])"
    by code_simp
  have draws: "\<forall>u\<in>set [1 / 2, 1 / 2, 0, 99 / 100, 1 / 3 :: real]. 0 \<le> u \<and> u < 1"
    by simp
  have "length [46, 1, 90 :: int] = 3 \<and> distinct [46, 1, 90 :: int]
        \<and> (\<forall>x\<in>set [46, 1, 90 :: int]. 1 \<le> x \<and> x \<le> 90)"
    using generateRandomNumbers_distinct_in_range [OF _ _ draws run] by simp
  then show ?thesis using run by simp
qed

text \<open>The precondition on the length is what lets the loop end: within it some draws make
  the call return, beyond it no draws do.\<close>

lemma generateRandomNumber_centre:
  assumes "mn \<le> v" "v \<le> mx"
  shows "generateRandomNumber mn mx ((of_int (v - mn) + 1 / 2) / of_int (mx - mn + 1)) = v"
proof -
  have n: "(of_int (mx - mn + 1) :: real) \<noteq> 0" using assms by simp
  have e: "(of_int (v - mn) + 1 / 2) / of_int (mx - mn + 1) * of_int (mx - mn + 1)
             = (of_int (v - mn) :: real) + 1 / 2"
    using n by simp
  have fl: "\<lfloor>(of_int (v - mn) :: real) + 1 / 2\<rfloor> = v - mn"
    by (simp add: floor_eq_iff)
  have "generateRandomNumber mn mx ((of_int (v - mn) + 1 / 2) / of_int (mx - mn + 1)) =
          \<lfloor>((of_int (v - mn) + 1 / 2) / of_int (mx - mn + 1) :: real) * of_int (mx - mn + 1)\<rfloor> + mn"
    by (simp only: generateRandomNumber_def)
  also have "\<dots> = \<lfloor>(of_int (v - mn) :: real) + 1 / 2\<rfloor> + mn" by (simp only: e)
  also have "\<dots> = v" unfolding fl by simp
  finally show ?thesis .
qed

lemma generateRandomNumbers_loop_ascending:
  assumes "mn \<le> mx" "int len \<le> mx - mn + 1" "j \<le> len"
  shows "generateRandomNumbers_loop mn mx len (map (\<lambda>k. mn + int k) [0..<j])
           (map (\<lambda>k. (real k + 1 / 2) / of_int (mx - mn + 1)) [j..<len])
         = Some (map (\<lambda>k. mn + int k) [0..<len], [])"
  using assms(3)
proof (induction "len - j" arbitrary: j)
  case 0
  then show ?case by simp
next
  case (Suc d)
  then have lt: "j < len" by simp
  have v: "mn \<le> mn + int j" "mn + int j \<le> mx" using lt assms(2) by simp_all
  have r: "generateRandomNumber mn mx ((real j + 1 / 2) / of_int (mx - mn + 1)) = mn + int j"
    using generateRandomNumber_centre[OF v] by simp
  have fresh: "mn + int j \<notin> set (map (\<lambda>k. mn + int k) [0..<j])" by auto
  have IH: "generateRandomNumbers_loop mn mx len (map (\<lambda>k. mn + int k) [0..<Suc j])
           (map (\<lambda>k. (real k + 1 / 2) / of_int (mx - mn + 1)) [Suc j..<len])
         = Some (map (\<lambda>k. mn + int k) [0..<len], [])"
    using Suc.hyps(1)[of "Suc j"] Suc.hyps(2) lt by simp
  have "[j..<len] = j # [Suc j..<len]" using lt by (simp add: upt_conv_Cons)
  then show ?case using lt r fresh IH by (simp add: Let_def del: of_int_add of_int_diff)
qed

lemma generateRandomNumbers_can_return:
  assumes "mn \<le> mx" "int len \<le> mx - mn + 1"
  shows "\<exists>rs numbers. (\<forall>u\<in>set rs. 0 \<le> u \<and> u < 1) \<and> generateRandomNumbers mn mx len rs = Some (numbers, [])"
proof -
  let ?rs = "map (\<lambda>k. (real k + 1 / 2) / of_int (mx - mn + 1) :: real) [0..<len]"
  have "generateRandomNumbers mn mx len ?rs = Some (map (\<lambda>k. mn + int k) [0..<len], [])"
    using generateRandomNumbers_loop_ascending[OF assms, of 0]
    by (simp add: generateRandomNumbers_def)
  moreover have "\<forall>u\<in>set ?rs. 0 \<le> u \<and> u < 1"
  proof
    fix u assume "u \<in> set ?rs"
    then obtain k where k: "k < len" "u = (real k + 1 / 2) / of_int (mx - mn + 1)"
      by auto
    have "0 < (of_int (mx - mn + 1) :: real)" using assms(1) by simp
    moreover have "real k + 1 / 2 < of_int (mx - mn + 1)"
      using k(1) assms(2) by simp
    ultimately show "0 \<le> u \<and> u < 1" using k(2) by simp
  qed
  ultimately show ?thesis by blast
qed

lemma generateRandomNumbers_too_long:
  assumes "mn \<le> mx" "mx - mn + 1 < int len" "\<forall>u\<in>set rs. 0 \<le> u \<and> u < 1"
  shows "generateRandomNumbers mn mx len rs = None"
proof (rule ccontr)
  assume "generateRandomNumbers mn mx len rs \<noteq> None"
  then obtain numbers rs' where g: "generateRandomNumbers_loop mn mx len [] rs = Some (numbers, rs')"
    by (auto simp: generateRandomNumbers_def)
  from generateRandomNumbers_loop_inv[OF assms(1,3) _ _ _ g]
  have p: "length numbers = len" "distinct numbers" "\<forall>x\<in>set numbers. mn \<le> x \<and> x \<le> mx"
    by simp_all
  have "set numbers \<subseteq> {mn..mx}" using p(3) by auto
  then have "Finite_Set.card (set numbers) \<le> Finite_Set.card {mn..mx}" by (intro card_mono) auto
  then have "int len \<le> mx - mn + 1" using p(1,2) assms(1) by (simp add: distinct_card)
  then show False using assms(2) by simp
qed

section \<open>Join gating\<close>

text \<open>
  Claim C3. On a peer whose role is host, a join command received while the game status
  is \<open>joining\<close> appends the requester to the roster and sends, in this order, the
  \<open>joined\<close> acknowledgment carrying the requester's identity and the \<open>players\<close>
  broadcast of the whole new roster. Received in any other status it sends a \<open>hold\<close>
  reply and changes nothing else, so the roster stays as it was.
\<close>

theorem commandJoinGame_gating:
  assumes "role (party s) = Host"
  shows "(status (game s) = Joining \<longrightarrow>
            players (party (commandJoinGame c s)) = players (party s) @ [c] \<and>
            sent (commandJoinGame c s) = sent s @ [Joined c, Players (players (party s) @ [c])])
       \<and> (status (game s) \<noteq> Joining \<longrightarrow>
            commandJoinGame c s = s\<lparr>sent := sent s @ [Hold (clientID s)]\<rparr>)"
  using assms
  by (simp add: commandJoinGame_def addPlayer_def joined_def broadcastPlayers_def hold_def
      send_def Let_def updatePlayerList_def)

text \<open>The freshly elected host admits \<open>decaf\<close>; the host in play answers \<open>beef\<close> with
  \<open>hold\<close>.\<close>

theorem commandJoinGame_gating_witness:
  "role (party host0) = Host \<and> status (game host0) = Joining
   \<and> players (party (commandJoinGame ''decaf'' host0)) = [''c0ffee'', ''decaf'']
   \<and> sent (commandJoinGame ''decaf'' host0) =
       [HostIdentify, IAmHost ''c0ffee'', Joined ''decaf'', Players [''c0ffee'', ''decaf'']]
   \<and> role (party host1) = Host \<and> status (game host1) = Playing
   \<and> commandJoinGame ''beef'' host1 = host1\<lparr>sent := sent host1 @ [Hold ''c0ffee'']\<rparr>"
proof -
  have a: "role (party host0) = Host" "status (game host0) = Joining"
    by (simp_all add: host0_eq)
  have b: "role (party host1) = Host" "status (game host1) = Playing"
    by (simp_all add: host1_eq)
  have c: "players (party host0) = [''c0ffee'']" "sent host0 = [HostIdentify, IAmHost ''c0ffee'']"
    "clientID host1 = ''c0ffee''"
    by (simp_all add: host0_eq host1_eq)
  show ?thesis
    using commandJoinGame_gating [OF a(1), of "''decaf''"]
      commandJoinGame_gating [OF b(1), of "''beef''"] a b c
    by simp
qed

section \<open>Disqualification gating\<close>

text \<open>
  Claim C4. When the host receives a claim whose claimer is already in its disqualified
  list, handling the command returns the state it started from: nothing is sent (no
  \<open>claimmade\<close>, \<open>claimvalid\<close> or \<open>claiminvalid\<close>), no timer is set or cleared (the draw
  interval stays as it was), the game state is unchanged and no random number is drawn.
\<close>

theorem commandClaim_disqualified_ignored:
  assumes "role (party s) = Host" "claimer \<in> set (disqualified (game s))"
  shows "handleCommand (Claim claimer gamecard) s rs = Some (s, rs)"
  using assms by (simp add: commandClaim_def)

theorem commandClaim_disqualified_ignored_witness:
  "role (party host2) = Host \<and> ''decaf'' \<in> set (disqualified (game host2))
   \<and> handleCommand (Claim ''decaf'' forged_card) host2 [1 / 2] = Some (host2, [1 / 2])"
proof -
  have a: "role (party host2) = Host" "''decaf'' \<in> set (disqualified (game host2))"
    by (simp_all add: host2_eq host1_eq)
  show ?thesis
    using commandClaim_disqualified_ignored [OF a, of forged_card "[1 / 2]"] a by simp
qed

section \<open>Host election\<close>

text \<open>
  Claim C5. The election timeout, when it fires, runs \<open>possiblyAssumeHost\<close>. On a peer
  whose roster is empty the peer then becomes host: its role is host, its host id is its
  own identity, an \<open>iamhost\<close> message with that identity is sent, and its roster consists
  of itself alone. With one or more peers in the roster the call returns the state
  unchanged.
\<close>

theorem possiblyAssumeHost_election:
  "(players (party s) = [] \<longrightarrow>
      role (party (possiblyAssumeHost s)) = Host \<and>
      host (party (possiblyAssumeHost s)) = Some (clientID s) \<and>
      sent (possiblyAssumeHost s) = sent s @ [IAmHost (clientID s)] \<and>
      players (party (possiblyAssumeHost s)) = [clientID s])
   \<and> (players (party s) \<noteq> [] \<longrightarrow> possiblyAssumeHost s = s)
   \<and> (map_of (timers s) h = Some (Timeout d PossiblyAssumeHost) \<longrightarrow>
        fire h s rs = Some (possiblyAssumeHost (clearTimer (Some h) s), rs))"
  by (simp add: possiblyAssumeHost_def becomeHost_def identifyAsHost_def addPlayer_def Let_def
      fire_def)

theorem possiblyAssumeHost_election_witness:
  "players (party peer0) = []
   \<and> role (party (possiblyAssumeHost peer0)) = Host
   \<and> host (party (possiblyAssumeHost peer0)) = Some ''c0ffee''
   \<and> sent (possiblyAssumeHost peer0) = [HostIdentify, IAmHost ''c0ffee'']
   \<and> players (party (possiblyAssumeHost peer0)) = [''c0ffee'']
   \<and> players (party player1) = [''c0ffee'', ''decaf'']
   \<and> possiblyAssumeHost player1 = player1
   \<and> map_of (timers peer0) 1 = Some (Timeout 6500 PossiblyAssumeHost)
   \<and> fire 1 peer0 [] = Some (possiblyAssumeHost (clearTimer (Some 1) peer0), [])"
proof -
  have a: "players (party peer0) = []" "clientID peer0 = ''c0ffee''" "sent peer0 = [HostIdentify]"
    "map_of (timers peer0) 1 = Some (Timeout 6500 PossiblyAssumeHost)"
    by (simp_all add: peer0_eq)
  have b: "players (party player1) = [''c0ffee'', ''decaf'']"
    by (simp add: player1_eq)
  show ?thesis
    using possiblyAssumeHost_election [of peer0 1 6500 "[]"]
      possiblyAssumeHost_election [of player1 1 6500 "[]"] a b
    by simp
qed

section \<open>Reset\<close>

text \<open>
  Claim C6. Handling the reset command puts the game state back to its initial values
  (status \<open>joining\<close>, empty card, empty called list, nobody disqualified) and starts the
  ready poll again: a new 1000 ms interval running \<open>getReady\<close> is registered and kept in
  \<open>getReadyInterval\<close>. The party state (roster, host id and role) is left as it was.
\<close>

theorem commandResetGame_frame:
  "game (commandResetGame s) = \<lparr>status = Joining, card' = [], called = [], disqualified = []\<rparr>
   \<and> party (commandResetGame s) = party s
   \<and> getReadyInterval (commandResetGame s) = Some (nextHandle s)
   \<and> timers (commandResetGame s) = timers s @ [(nextHandle s, Interval 1000 GetReady)]"
  by (simp add: commandResetGame_def setInitialState_def setTimer_def Let_def)

section \<open>Roster replacement\<close>

lemma fold_addPlayer:
  "fold (\<lambda>player. addPlayer player) ps s =
     (if ps = [] then s
      else s\<lparr>party := (party s)\<lparr>players := players (party s) @ ps\<rparr>,
             elements := (elements s)\<lparr>el_players :=
               map (\<lambda>player. (player, player = clientID s, Some player = host (party s)))
                   (players (party s) @ ps)\<rparr>\<rparr>)"
proof (induction ps arbitrary: s)
  case Nil
  then show ?case by simp
next
  case (Cons p ps)
  have "fold (\<lambda>player. addPlayer player) (p # ps) s =
        fold (\<lambda>player. addPlayer player) ps (addPlayer p s)"
    by simp
  also have "\<dots> =
      (if ps = [] then addPlayer p s
       else (addPlayer p s)\<lparr>party := (party (addPlayer p s))\<lparr>players :=
                 players (party (addPlayer p s)) @ ps\<rparr>,
               elements := (elements (addPlayer p s))\<lparr>el_players :=
                 map (\<lambda>player. (player, player = clientID (addPlayer p s),
                                    Some player = host (party (addPlayer p s))))
                     (players (party (addPlayer p s)) @ ps)\<rparr>\<rparr>)"
    by (rule Cons.IH)
  also have "\<dots> =
      s\<lparr>party := (party s)\<lparr>players := players (party s) @ p # ps\<rparr>,
        elements := (elements s)\<lparr>el_players :=
          map (\<lambda>player. (player, player = clientID s, Some player = host (party s)))
              (players (party s) @ p # ps)\<rparr>\<rparr>"
    by (simp add: addPlayer_def updatePlayerList_def)
  finally show ?case by simp
qed

text \<open>
  Claim C7. On a peer that is not host, a \<open>players\<close> broadcast makes the local roster
  exactly the received list, in the received order, and handling the same broadcast a
  second time gives the same state as handling it once. On a peer whose role is host the
  broadcast changes nothing.
\<close>

theorem commandUpdatePlayers_replaces:
  "(role (party s) \<noteq> Host \<longrightarrow>
      players (party (commandUpdatePlayers ps s)) = ps \<and>
      commandUpdatePlayers ps (commandUpdatePlayers ps s) = commandUpdatePlayers ps s)
   \<and> (role (party s) = Host \<longrightarrow> commandUpdatePlayers ps s = s)"
  by (simp add: commandUpdatePlayers_def fold_addPlayer)

theorem commandUpdatePlayers_replaces_witness:
  "role (party peer_decaf) \<noteq> Host
   \<and> players (party (commandUpdatePlayers [''c0ffee'', ''decaf''] peer_decaf)) = [''c0ffee'', ''decaf'']
   \<and> commandUpdatePlayers [''c0ffee'', ''decaf''] (commandUpdatePlayers [''c0ffee'', ''decaf''] peer_decaf)
       = commandUpdatePlayers [''c0ffee'', ''decaf''] peer_decaf
   \<and> role (party host0) = Host
   \<and> commandUpdatePlayers [''decaf''] host0 = host0"
proof -
  have a: "role (party peer_decaf) \<noteq> Host"
    by (simp add: peer_decaf_eq peer0_eq)
  have b: "role (party host0) = Host"
    by (simp add: host0_eq)
  show ?thesis
    using commandUpdatePlayers_replaces [of peer_decaf "[''c0ffee'', ''decaf'']"]
      commandUpdatePlayers_replaces [of host0 "[''decaf'']"] a b
    by simp
qed

section \<open>The called list on the host\<close>

lemma draws_ok_subset: "draws_ok rs \<Longrightarrow> set rs' \<subseteq> set rs \<Longrightarrow> draws_ok rs'"
  by (auto simp: draws_ok_def list_all_iff)

lemma generateRandomNumbers_loop_rest:
  "generateRandomNumbers_loop mn mx len numbers rs = Some (res, rs') \<Longrightarrow> set rs' \<subseteq> set rs"
proof (induction rs arbitrary: numbers)
  case Nil
  then show ?case by (auto split: if_splits)
next
  case (Cons u rs)
  show ?case
  proof (cases "length numbers < len")
    case True
    then have "generateRandomNumbers_loop mn mx len
                 (if generateRandomNumber mn mx u \<notin> set numbers
                  then numbers @ [generateRandomNumber mn mx u] else numbers) rs = Some (res, rs')"
      using Cons.prems by (simp add: Let_def)
    then have "set rs' \<subseteq> set rs" by (rule Cons.IH)
    then show ?thesis by auto
  next
    case False
    then show ?thesis using Cons.prems by auto
  qed
qed

lemma generateRandomNumberNotAlreadyCalled_result:
  "generateRandomNumberNotAlreadyCalled mn mx array rs = Some (n, rs') \<Longrightarrow>
     n \<notin> set array \<and> n \<noteq> 0 \<and> (\<exists>u\<in>set rs. n = generateRandomNumber mn mx u) \<and> set rs' \<subseteq> set rs"
proof (induction rs)
  case Nil
  then show ?case by simp
next
  case (Cons u rs)
  show ?case
  proof (cases "generateRandomNumber mn mx u \<notin> set array \<and> generateRandomNumber mn mx u \<noteq> 0")
    case True
    then show ?thesis using Cons.prems by (auto simp: Let_def)
  next
    case False
    then have "generateRandomNumberNotAlreadyCalled mn mx array rs = Some (n, rs')"
      using Cons.prems by (auto simp: Let_def)
    then show ?thesis using Cons.IH by auto
  qed
qed

lemma generateRandomNumberNotAlreadyCalled_None:
  "generateRandomNumberNotAlreadyCalled mn mx array rs = None \<longleftrightarrow>
     (\<forall>u\<in>set rs. generateRandomNumber mn mx u \<in> set array \<or> generateRandomNumber mn mx u = 0)"
  by (induction rs) (auto simp: Let_def)

lemma distinct_in_1_90_length:
  assumes "distinct (xs :: int list)" "list_all (\<lambda>n. 1 \<le> n \<and> n \<le> 90) xs"
  shows "length xs \<le> 90"
proof -
  have "set xs \<subseteq> {1..90}" using assms(2) by (auto simp: list_all_iff)
  then have "card (set xs) \<le> card {1..90::int}" by (intro card_mono) auto
  then show ?thesis using assms(1) by (simp add: distinct_card)
qed

lemma callingTick_result:
  assumes "called_ok s" "draws_ok rs" "callingTick s rs = Some (s', rs')"
  shows "\<exists>n. 1 \<le> n \<and> n \<le> 90 \<and> n \<notin> set (called (game s)) \<and>
             s' = (let s2 = (s\<lparr>game := (game s)\<lparr>called := called (game s) @ [n]\<rparr>\<rparr>)
                              \<lparr>sent := sent s @ [Call n (called (game s) @ [n])]\<rparr>
                   in if length (called (game s)) = 89 then pauseCalling s2 else s2)"
    and "set rs' \<subseteq> set rs"
proof -
  obtain n rs0 where g0: "generateRandomNumberNotAlreadyCalled 1 90 (called (game s)) rs = Some (n, rs0)"
    using assms(3) by (cases "generateRandomNumberNotAlreadyCalled 1 90 (called (game s)) rs")
      (auto simp: callingTick_def)
  have "rs0 = rs'" using assms(3) g0 by (simp add: callingTick_def Let_def)
  then have g: "generateRandomNumberNotAlreadyCalled 1 90 (called (game s)) rs = Some (n, rs')"
    using g0 by simp
  from generateRandomNumberNotAlreadyCalled_result[OF g]
  obtain u where n: "n \<notin> set (called (game s))" "u \<in> set rs" "n = generateRandomNumber 1 90 u"
    and sub: "set rs' \<subseteq> set rs" by auto
  have "0 \<le> u \<and> u < 1" using assms(2) n(2) by (auto simp: draws_ok_def list_all_iff)
  then have r: "1 \<le> n \<and> n \<le> 90" using generateRandomNumber_range[of 1 90 u] n(3) by simp
  have "s' = (let s2 = (s\<lparr>game := (game s)\<lparr>called := called (game s) @ [n]\<rparr>\<rparr>)
                              \<lparr>sent := sent s @ [Call n (called (game s) @ [n])]\<rparr>
                   in if length (called (game s)) = 89 then pauseCalling s2 else s2)"
    using assms(3) g by (auto simp: callingTick_def callNumber_def send_def Let_def)
  then show "\<exists>n. 1 \<le> n \<and> n \<le> 90 \<and> n \<notin> set (called (game s)) \<and>
             s' = (let s2 = (s\<lparr>game := (game s)\<lparr>called := called (game s) @ [n]\<rparr>\<rparr>)
                              \<lparr>sent := sent s @ [Call n (called (game s) @ [n])]\<rparr>
                   in if length (called (game s)) = 89 then pauseCalling s2 else s2)"
    using r n(1) by blast
  show "set rs' \<subseteq> set rs" by (rule sub)
qed

lemma generateGameCard_frame:
  assumes "generateGameCard s rs = Some (s', rs')"
  shows "party s' = party s \<and> called (game s') = called (game s) \<and> set rs' \<subseteq> set rs"
proof -
  obtain numbers where g: "generateRandomNumbers 1 90 25 rs = Some (numbers, rs')"
    and s': "s' = updateGameCardDisplay (s\<lparr>game := (game s)\<lparr>card' := numbers\<rparr>\<rparr>)"
    using assms by (auto simp: generateGameCard_def split: option.splits)
  have "set rs' \<subseteq> set rs"
    using g generateRandomNumbers_loop_rest by (simp add: generateRandomNumbers_def)
  then show ?thesis by (simp add: s' updateGameCardDisplay_def)
qed

lemma commandStartGame_frame:
  assumes "commandStartGame s rs = Some (s', rs')"
  shows "role (party s') = role (party s) \<and> called (game s') = called (game s) \<and> set rs' \<subseteq> set rs"
proof -
  let ?s6 = "enableClaimButton
     ((setTimer (Timeout 5000 ClearStatus)
        ((clearTimer (getReadyInterval s) s)
           \<lparr>game := (game (clearTimer (getReadyInterval s) s))\<lparr>status := Playing\<rparr>,
             elements := (elements (clearTimer (getReadyInterval s) s))
                \<lparr>el_status := ''Game is starting...''\<rparr>\<rparr>))\<lparr>class_started := True\<rparr>)"
  obtain s7 where g: "generateGameCard ?s6 rs = Some (s7, rs')"
    and s': "s' = (if role (party s7) = Host then startCalling s7 else s7)"
    using assms by (auto simp: commandStartGame_def Let_def split: option.splits)
  have "party ?s6 = party s" "called (game ?s6) = called (game s)"
    by (simp_all add: enableClaimButton_def)
  then show ?thesis using generateGameCard_frame[OF g] s' by simp
qed

lemma commandClaim_frame:
  assumes "commandClaim claimer gamecard s rs = Some (s', rs')"
  shows "party s' = party s \<and> game s' = game s \<and> set rs' \<subseteq> set rs"
  using assms
  by (cases rs) (auto simp: commandClaim_def Let_def claimMade_def split: if_splits)

lemma handleCommand_host_frame:
  assumes "role (party s) = Host" "handleCommand c s rs = Some (s', rs')"
  shows "role (party s') = Host \<and> (called (game s') = called (game s) \<or> called (game s') = [])
         \<and> set rs' \<subseteq> set rs"
proof (cases c)
  case Start
  then show ?thesis using assms commandStartGame_frame[of s rs s' rs'] by simp
next
  case (Claim claimer gamecard)
  then show ?thesis using assms commandClaim_frame[of claimer gamecard s rs s' rs'] by simp
next
  case Reset
  then show ?thesis using assms
    by (auto simp: commandResetGame_def setInitialState_def Let_def)
next
  case (Call number calledNumbers)
  then show ?thesis using assms
    by (auto simp: commandCall_def updateCalledDisplay_def updateGameCardDisplay_def Let_def)
next
  case (Players ps)
  then show ?thesis using assms by (auto simp: commandUpdatePlayers_def)
next
  case HostIdentify
  then show ?thesis using assms by (auto simp: commandHostIdentify_def identifyAsHost_def)
next
  case (IAmHost c')
  then show ?thesis using assms
    by (auto simp: commandHostIdentified_def tryToJoinGame_def joinGame_def Let_def)
next
  case (Join c')
  then show ?thesis using assms
    by (auto simp: commandJoinGame_def addPlayer_def joined_def broadcastPlayers_def hold_def Let_def)
next
  case (Joined c')
  then show ?thesis using assms by (auto simp: commandJoinedGame_def Let_def)
next
  case (Hold c')
  then show ?thesis using assms by (auto simp: commandHold_def Let_def)
next
  case (Leave c')
  then show ?thesis using assms
    by (auto simp: commandLeaveGame_def removePlayer_def broadcastPlayers_def Let_def)
next
  case (ClaimMade c')
  then show ?thesis using assms by (auto simp: commandClaimMade_def)
next
  case (ClaimValid c')
  then show ?thesis using assms by (auto simp: commandClaimValid_def Let_def)
next
  case (ClaimInvalid c')
  then show ?thesis using assms by (auto simp: commandClaimInvalid_def)
next
  case (Unrecognised tag)
  then show ?thesis using assms by auto
qed

lemma called_ok_append:
  assumes "called_ok s" "1 \<le> n" "n \<le> 90" "n \<notin> set (called (game s))"
    "called (game s') = called (game s) @ [n]"
  shows "called_ok s'"
  using assms by (simp add: called_ok_def)

lemma called_ok_same: "called_ok s \<Longrightarrow> called (game s') = called (game s) \<Longrightarrow> called_ok s'"
  by (simp add: called_ok_def)

lemma called_ok_empty: "called (game s') = [] \<Longrightarrow> called_ok s'"
  by (simp add: called_ok_def)

lemma callingTick_host_inv:
  assumes "role (party s) = Host" "called_ok s" "draws_ok rs" "callingTick s rs = Some (s', rs')"
  shows "role (party s') = Host \<and> called_ok s' \<and> set rs' \<subseteq> set rs"
proof -
  from callingTick_result[OF assms(2,3,4)]
  obtain n where n: "1 \<le> n" "n \<le> 90" "n \<notin> set (called (game s))"
    and s': "s' = (let s2 = (s\<lparr>game := (game s)\<lparr>called := called (game s) @ [n]\<rparr>\<rparr>)
                              \<lparr>sent := sent s @ [Call n (called (game s) @ [n])]\<rparr>
                   in if length (called (game s)) = 89 then pauseCalling s2 else s2)"
    and sub: "set rs' \<subseteq> set rs" by blast
  have c: "called (game s') = called (game s) @ [n]" and p: "party s' = party s"
    by (simp_all add: s' Let_def)
  show ?thesis using called_ok_append[OF assms(2) n c] p assms(1) sub by simp
qed

lemma runAction_host_inv:
  assumes "role (party s) = Host" "called_ok s" "draws_ok rs" "runAction a s rs = Some (s', rs')"
  shows "role (party s') = Host \<and> called_ok s' \<and> set rs' \<subseteq> set rs"
proof (cases a)
  case CallNumber
  then show ?thesis using assms callingTick_host_inv[of s rs s' rs'] by simp
next
  case PossiblyAssumeHost
  then have "role (party s') = Host \<and> called (game s') = called (game s) \<and> rs' = rs"
    using assms(1,4) by (auto simp: possiblyAssumeHost_def becomeHost_def identifyAsHost_def
        addPlayer_def Let_def)
  then show ?thesis using called_ok_same[OF assms(2)] by auto
next
  case GetReady
  then have "role (party s') = Host \<and> called (game s') = called (game s) \<and> rs' = rs"
    using assms(1,4) by (auto simp: getReady_def Let_def)
  then show ?thesis using called_ok_same[OF assms(2)] by auto
next
  case TryToJoinGame
  then have "role (party s') = Host \<and> called (game s') = called (game s) \<and> rs' = rs"
    using assms(1,4) by (auto simp: tryToJoinGame_def joinGame_def Let_def)
  then show ?thesis using called_ok_same[OF assms(2)] by auto
next
  case ClearStatus
  then have "role (party s') = Host \<and> called (game s') = called (game s) \<and> rs' = rs"
    using assms(1,4) by auto
  then show ?thesis using called_ok_same[OF assms(2)] by auto
next
  case (AnnounceClaimValid c)
  then have "role (party s') = Host \<and> called (game s') = called (game s) \<and> rs' = rs"
    using assms(1,4) by (auto simp: claimValid_def)
  then show ?thesis using called_ok_same[OF assms(2)] by auto
next
  case (AnnounceClaimInvalid c)
  then have "role (party s') = Host \<and> called (game s') = called (game s) \<and> rs' = rs"
    using assms(1,4) by (auto simp: announceClaimInvalid_def claimInvalid_def Let_def)
  then show ?thesis using called_ok_same[OF assms(2)] by auto
qed

lemma fire_host_inv:
  assumes "role (party s) = Host" "called_ok s" "draws_ok rs" "fire h s rs = Some (s', rs')"
  shows "role (party s') = Host \<and> called_ok s' \<and> set rs' \<subseteq> set rs"
proof (cases "map_of (timers s) h")
  case None
  then show ?thesis using assms by (simp add: fire_def)
next
  case (Some t)
  show ?thesis
  proof (cases t)
    case (Timeout d a)
    have "role (party (clearTimer (Some h) s)) = Host" "called_ok (clearTimer (Some h) s)"
      using assms(1,2) by (simp_all add: called_ok_def)
    moreover have "runAction a (clearTimer (Some h) s) rs = Some (s', rs')"
      using assms(4) Some Timeout by (simp add: fire_def)
    ultimately show ?thesis using runAction_host_inv assms(3) by blast
  next
    case (Interval d a)
    then have "runAction a s rs = Some (s', rs')"
      using assms(4) Some by (simp add: fire_def)
    then show ?thesis using runAction_host_inv assms(1,2,3) by blast
  qed
qed

lemma step_host_inv:
  assumes "role (party s) = Host" "called_ok s" "draws_ok rs" "step e s rs = Some (s', rs')"
  shows "role (party s') = Host \<and> called_ok s' \<and> draws_ok rs'"
proof (cases e)
  case (Receive c)
  then have "handleCommand c s rs = Some (s', rs')" using assms(4) by simp
  from handleCommand_host_frame[OF assms(1) this]
  show ?thesis using assms(2,3) called_ok_same called_ok_empty draws_ok_subset by blast
next
  case (Fire h)
  then have "fire h s rs = Some (s', rs')" using assms(4) by simp
  from fire_host_inv[OF assms(1,2,3) this]
  show ?thesis using assms(3) draws_ok_subset by blast
next
  case ClickStart
  then have "role (party s') = Host \<and> called (game s') = called (game s) \<and> rs' = rs"
    using assms(1,4) by (auto simp: startGame_def relay_startGame_def)
  then show ?thesis using called_ok_same[OF assms(2)] assms(3) by auto
next
  case ClickReset
  then have "role (party s') = Host \<and> called (game s') = called (game s) \<and> rs' = rs"
    using assms(1,4) by (auto simp: resetGame_def relay_resetGame_def)
  then show ?thesis using called_ok_same[OF assms(2)] assms(3) by auto
next
  case ClickClaim
  then have "role (party s') = Host \<and> called (game s') = called (game s) \<and> rs' = rs"
    using assms(1,4) by (auto simp: lodgeClaim_def claim_def Let_def)
  then show ?thesis using called_ok_same[OF assms(2)] assms(3) by auto
next
  case BeforeUnload
  then have "role (party s') = Host \<and> called (game s') = called (game s) \<and> rs' = rs"
    using assms(1,4) by (auto simp: leaveGame_def relay_leaveGame_def)
  then show ?thesis using called_ok_same[OF assms(2)] assms(3) by auto
qed

lemma run_host_inv:
  assumes "role (party s) = Host" "called_ok s" "draws_ok rs" "run evs s rs = Some (s', rs')"
  shows "role (party s') = Host \<and> called_ok s' \<and> draws_ok rs'"
  using assms
proof (induction evs arbitrary: s rs)
  case Nil
  then show ?case by simp
next
  case (Cons e evs)
  from Cons.prems(4) obtain s1 rs1 where st: "step e s rs = Some (s1, rs1)"
    and rn: "run evs s1 rs1 = Some (s', rs')"
    by (auto split: option.splits)
  from step_host_inv[OF Cons.prems(1,2,3) st]
  show ?case using Cons.IH[OF _ _ _ rn] by blast
qed

text \<open>The same for any peer, host or not, as long as no \<open>call\<close> message is handled by a
  peer that is not host (\<open>commandCall\<close> appends the received number there, whatever it
  is).\<close>

lemma fold_addPlayer_game: "game (fold (\<lambda>player. addPlayer player) ps s) = game s"
  by (simp add: fold_addPlayer)

lemma handleCommand_called_frame:
  assumes "handleCommand c s rs = Some (s', rs')"
    "role (party s) = Host \<or> (\<forall>n cs. c \<noteq> Call n cs)"
  shows "(called (game s') = called (game s) \<or> called (game s') = []) \<and> set rs' \<subseteq> set rs"
proof (cases c)
  case Start
  then show ?thesis using assms commandStartGame_frame[of s rs s' rs'] by simp
next
  case (Claim claimer gamecard)
  then show ?thesis using assms commandClaim_frame[of claimer gamecard s rs s' rs'] by simp
next
  case Reset
  then show ?thesis using assms
    by (auto simp: commandResetGame_def setInitialState_def Let_def)
next
  case (Call number calledNumbers)
  then show ?thesis using assms
    by (auto simp: commandCall_def updateCalledDisplay_def updateGameCardDisplay_def Let_def)
next
  case (Players ps)
  then show ?thesis using assms by (auto simp: commandUpdatePlayers_def fold_addPlayer_game)
next
  case HostIdentify
  then show ?thesis using assms by (auto simp: commandHostIdentify_def identifyAsHost_def)
next
  case (IAmHost c')
  then show ?thesis using assms
    by (auto simp: commandHostIdentified_def tryToJoinGame_def joinGame_def Let_def)
next
  case (Join c')
  then show ?thesis using assms
    by (auto simp: commandJoinGame_def addPlayer_def joined_def broadcastPlayers_def hold_def Let_def)
next
  case (Joined c')
  then show ?thesis using assms by (auto simp: commandJoinedGame_def Let_def)
next
  case (Hold c')
  then show ?thesis using assms by (auto simp: commandHold_def Let_def)
next
  case (Leave c')
  then show ?thesis using assms
    by (auto simp: commandLeaveGame_def removePlayer_def broadcastPlayers_def Let_def)
next
  case (ClaimMade c')
  then show ?thesis using assms by (auto simp: commandClaimMade_def)
next
  case (ClaimValid c')
  then show ?thesis using assms by (auto simp: commandClaimValid_def Let_def)
next
  case (ClaimInvalid c')
  then show ?thesis using assms by (auto simp: commandClaimInvalid_def)
next
  case (Unrecognised tag)
  then show ?thesis using assms by auto
qed

lemma runAction_called_ok:
  assumes "called_ok s" "draws_ok rs" "runAction a s rs = Some (s', rs')"
  shows "called_ok s' \<and> set rs' \<subseteq> set rs"
proof (cases a)
  case CallNumber
  then have t: "callingTick s rs = Some (s', rs')" using assms(3) by simp
  from callingTick_result[OF assms(1,2) t]
  obtain n where n: "1 \<le> n" "n \<le> 90" "n \<notin> set (called (game s))"
    and s': "s' = (let s2 = (s\<lparr>game := (game s)\<lparr>called := called (game s) @ [n]\<rparr>\<rparr>)
                              \<lparr>sent := sent s @ [Call n (called (game s) @ [n])]\<rparr>
                   in if length (called (game s)) = 89 then pauseCalling s2 else s2)"
    and sub: "set rs' \<subseteq> set rs" by blast
  have "called (game s') = called (game s) @ [n]" by (simp add: s' Let_def)
  then show ?thesis using called_ok_append[OF assms(1) n] sub by simp
next
  case PossiblyAssumeHost
  then have "called (game s') = called (game s) \<and> rs' = rs"
    using assms(3) by (auto simp: possiblyAssumeHost_def becomeHost_def identifyAsHost_def
        addPlayer_def Let_def)
  then show ?thesis using called_ok_same[OF assms(1)] by auto
next
  case GetReady
  then have "called (game s') = called (game s) \<and> rs' = rs"
    using assms(3) by (auto simp: getReady_def Let_def)
  then show ?thesis using called_ok_same[OF assms(1)] by auto
next
  case TryToJoinGame
  then have "called (game s') = called (game s) \<and> rs' = rs"
    using assms(3) by (auto simp: tryToJoinGame_def joinGame_def Let_def)
  then show ?thesis using called_ok_same[OF assms(1)] by auto
next
  case ClearStatus
  then have "called (game s') = called (game s) \<and> rs' = rs"
    using assms(3) by auto
  then show ?thesis using called_ok_same[OF assms(1)] by auto
next
  case (AnnounceClaimValid c)
  then have "called (game s') = called (game s) \<and> rs' = rs"
    using assms(3) by (auto simp: claimValid_def)
  then show ?thesis using called_ok_same[OF assms(1)] by auto
next
  case (AnnounceClaimInvalid c)
  then have "called (game s') = called (game s) \<and> rs' = rs"
    using assms(3) by (auto simp: announceClaimInvalid_def claimInvalid_def Let_def)
  then show ?thesis using called_ok_same[OF assms(1)] by auto
qed

lemma fire_called_ok:
  assumes "called_ok s" "draws_ok rs" "fire h s rs = Some (s', rs')"
  shows "called_ok s' \<and> set rs' \<subseteq> set rs"
proof (cases "map_of (timers s) h")
  case None
  then show ?thesis using assms by (simp add: fire_def)
next
  case (Some t)
  show ?thesis
  proof (cases t)
    case (Timeout d a)
    have "called_ok (clearTimer (Some h) s)"
      using assms(1) by (simp add: called_ok_def)
    moreover have "runAction a (clearTimer (Some h) s) rs = Some (s', rs')"
      using assms(3) Some Timeout by (simp add: fire_def)
    ultimately show ?thesis using runAction_called_ok assms(2) by blast
  next
    case (Interval d a)
    then have "runAction a s rs = Some (s', rs')"
      using assms(3) Some by (simp add: fire_def)
    then show ?thesis using runAction_called_ok assms(1,2) by blast
  qed
qed

lemma step_called_ok:
  assumes "called_ok s" "draws_ok rs" "step e s rs = Some (s', rs')"
    "role (party s) = Host \<or> (\<forall>n cs. e \<noteq> Receive (Call n cs))"
  shows "called_ok s' \<and> draws_ok rs'"
proof (cases e)
  case (Receive c)
  then have h: "handleCommand c s rs = Some (s', rs')" using assms(3) by simp
  have "role (party s) = Host \<or> (\<forall>n cs. c \<noteq> Call n cs)" using assms(4) Receive by auto
  from handleCommand_called_frame[OF h this]
  show ?thesis using assms(1,2) called_ok_same called_ok_empty draws_ok_subset by blast
next
  case (Fire h)
  then have "fire h s rs = Some (s', rs')" using assms(3) by simp
  from fire_called_ok[OF assms(1,2) this]
  show ?thesis using assms(2) draws_ok_subset by blast
next
  case ClickStart
  then have "called (game s') = called (game s) \<and> rs' = rs"
    using assms(3) by (auto simp: startGame_def relay_startGame_def)
  then show ?thesis using called_ok_same[OF assms(1)] assms(2) by auto
next
  case ClickReset
  then have "called (game s') = called (game s) \<and> rs' = rs"
    using assms(3) by (auto simp: resetGame_def relay_resetGame_def)
  then show ?thesis using called_ok_same[OF assms(1)] assms(2) by auto
next
  case ClickClaim
  then have "called (game s') = called (game s) \<and> rs' = rs"
    using assms(3) by (auto simp: lodgeClaim_def claim_def Let_def)
  then show ?thesis using called_ok_same[OF assms(1)] assms(2) by auto
next
  case BeforeUnload
  then have "called (game s') = called (game s) \<and> rs' = rs"
    using assms(3) by (auto simp: leaveGame_def relay_leaveGame_def)
  then show ?thesis using called_ok_same[OF assms(1)] assms(2) by auto
qed

lemma run_without_calls_called_ok:
  assumes "called_ok s" "draws_ok rs" "\<forall>n cs. Receive (Call n cs) \<notin> set evs"
    "run evs s rs = Some (s', rs')"
  shows "called_ok s' \<and> draws_ok rs'"
  using assms
proof (induction evs arbitrary: s rs)
  case Nil
  then show ?case by simp
next
  case (Cons e evs)
  from Cons.prems(4) obtain s1 rs1 where st: "step e s rs = Some (s1, rs1)"
    and rn: "run evs s1 rs1 = Some (s', rs')"
    by (auto split: option.splits)
  have "\<forall>n cs. e \<noteq> Receive (Call n cs)" using Cons.prems(3) by auto
  then have "called_ok s1 \<and> draws_ok rs1"
    using step_called_ok[OF Cons.prems(1,2) st] by blast
  moreover have "\<forall>n cs. Receive (Call n cs) \<notin> set evs" using Cons.prems(3) by auto
  ultimately show ?case using Cons.IH[OF _ _ _ rn] by blast
qed

lemma constructor_called_ok: "called_ok (constructor cid els u)"
  by (simp add: called_ok_def constructor_def setInitialState_def getCurrentHost_def
      getGameHost_def setTimer_def Let_def)

lemma map_of_filter_neq: "map_of (filter (\<lambda>(k, t). k \<noteq> h) xs) h = None"
  by (induction xs) auto

lemma free_number:
  assumes "called_ok s" "length (called (game s)) < 90"
  obtains n where "1 \<le> n" "n \<le> 90" "n \<notin> set (called (game s))"
proof -
  have sub: "set (called (game s)) \<subseteq> {1..90}"
    using assms(1) by (auto simp: called_ok_def list_all_iff)
  have "Finite_Set.card (set (called (game s))) = length (called (game s))"
    using assms(1) by (simp add: called_ok_def distinct_card)
  then have "Finite_Set.card (set (called (game s))) < Finite_Set.card {1..90::int}"
    using assms(2) by simp
  then have "set (called (game s)) \<noteq> {1..90}" by auto
  then have "\<exists>n. n \<in> {1..90} \<and> n \<notin> set (called (game s))" using sub by blast
  then show ?thesis using that by auto
qed

lemma generateRandomNumber_hit:
  "generateRandomNumber 1 90 ((2 * of_int n - 1) / 180) = n"
proof -
  have e: "(2 * of_int n - 1) / 180 * of_int (90 - 1 + 1) = (of_int n :: real) - 1 / 2" by simp
  have fl: "\<lfloor>(of_int n :: real) - 1 / 2\<rfloor> = n - 1"
    by (simp add: floor_eq_iff)
  have "generateRandomNumber 1 90 ((2 * of_int n - 1) / 180) =
          \<lfloor>((2 * of_int n - 1) / 180 :: real) * of_int (90 - 1 + 1)\<rfloor> + 1"
    by (simp only: generateRandomNumber_def)
  also have "\<dots> = \<lfloor>(of_int n :: real) - 1 / 2\<rfloor> + 1" by (simp only: e)
  also have "\<dots> = n" unfolding fl by simp
  finally show ?thesis .
qed

lemma callingTick_can_return:
  assumes "called_ok s" "length (called (game s)) < 90"
  shows "\<exists>u. 0 \<le> u \<and> u < 1 \<and> (\<exists>s' . callingTick s (u # rs) = Some (s', rs))"
proof -
  from free_number[OF assms] obtain n where n: "1 \<le> n" "n \<le> 90" "n \<notin> set (called (game s))"
    by blast
  let ?u = "(2 * of_int n - 1) / 180 :: real"
  have u: "0 \<le> ?u \<and> ?u < 1" using n(1,2) by simp
  have "generateRandomNumberNotAlreadyCalled 1 90 (called (game s)) (?u # rs) = Some (n, rs)"
    using n by (simp add: generateRandomNumber_hit Let_def)
  then have "\<exists>s'. callingTick s (?u # rs) = Some (s', rs)"
    by (simp add: callingTick_def Let_def)
  then show ?thesis using u by blast
qed

lemma pauseCalling_clears:
  "callingInterval (pauseCalling s) = Some h \<Longrightarrow> map_of (timers (pauseCalling s)) h = None"
  by (cases "callingInterval s") (simp_all add: pauseCalling_def map_of_filter_neq)

text \<open>
  Claim C8, as the code has it. On a host whose called list is duplicate-free with
  entries in \<open>[1, 90]\<close>, whatever then happens on that peer (messages, timers, clicks)
  leaves it host with a called list that is again duplicate-free with entries in
  \<open>[1, 90]\<close>, hence of at most 90 entries. Every tick of the draw interval that returns
  appends one number of \<open>[1, 90]\<close> that was not in the list and sends it in a \<open>call\<close>
  message together with the whole new list; when that makes 90 entries the tick clears
  the interval kept in \<open>callingInterval\<close>, otherwise it leaves the timers alone. While
  fewer than 90 numbers are called there is a draw on which the tick returns.

  The list is such after the constructor and after every reset (it is empty), and it stays
  such on a peer that is not yet host until that peer handles a \<open>call\<close> message
  (\<open>constructor_called_ok\<close>, \<open>run_without_calls_called_ok\<close>).
\<close>

theorem host_called_invariant:
  assumes "role (party s) = Host" "called_ok s" "draws_ok rs"
  shows "(run evs s rs = Some (s1, rs1) \<longrightarrow>
            role (party s1) = Host \<and> called_ok s1 \<and> length (called (game s1)) \<le> 90)
       \<and> (callingTick s rs = Some (s2, rs2) \<longrightarrow>
            (\<exists>n. 1 \<le> n \<and> n \<le> 90 \<and> n \<notin> set (called (game s)) \<and>
                 called (game s2) = called (game s) @ [n] \<and>
                 sent s2 = sent s @ [Call n (called (game s) @ [n])]) \<and>
            (length (called (game s2)) = 90 \<longrightarrow>
               (\<forall>h. callingInterval s2 = Some h \<longrightarrow> map_of (timers s2) h = None)) \<and>
            (length (called (game s2)) \<noteq> 90 \<longrightarrow> timers s2 = timers s))
       \<and> (length (called (game s)) < 90 \<longrightarrow>
            (\<exists>u. 0 \<le> u \<and> u < 1 \<and> (\<exists>s'. callingTick s (u # rs) = Some (s', rs))))"
proof (intro conjI impI)
  assume r: "run evs s rs = Some (s1, rs1)"
  from run_host_inv[OF assms r]
  have inv: "role (party s1) = Host \<and> called_ok s1 \<and> draws_ok rs1" .
  then show "role (party s1) = Host" "called_ok s1" by simp_all
  show "length (called (game s1)) \<le> 90"
    using inv distinct_in_1_90_length by (simp add: called_ok_def)
next
  assume t: "callingTick s rs = Some (s2, rs2)"
  from callingTick_result(1)[OF assms(2,3) t]
  obtain n where n: "1 \<le> n" "n \<le> 90" "n \<notin> set (called (game s))"
    and s2: "s2 = (let s' = (s\<lparr>game := (game s)\<lparr>called := called (game s) @ [n]\<rparr>\<rparr>)
                              \<lparr>sent := sent s @ [Call n (called (game s) @ [n])]\<rparr>
                   in if length (called (game s)) = 89 then pauseCalling s' else s')"
    by blast
  show "\<exists>n. 1 \<le> n \<and> n \<le> 90 \<and> n \<notin> set (called (game s)) \<and>
             called (game s2) = called (game s) @ [n] \<and>
             sent s2 = sent s @ [Call n (called (game s) @ [n])]"
    using n by (intro exI[of _ n]) (simp add: s2 Let_def)
  show "\<forall>h. callingInterval s2 = Some h \<longrightarrow> map_of (timers s2) h = None"
    if "length (called (game s2)) = 90"
    using that pauseCalling_clears by (auto simp: s2 Let_def split: if_splits)
  show "timers s2 = timers s" if "length (called (game s2)) \<noteq> 90"
    using that by (auto simp: s2 Let_def split: if_splits)
next
  assume "length (called (game s)) < 90"
  then show "\<exists>u. 0 \<le> u \<and> u < 1 \<and> (\<exists>s'. callingTick s (u # rs) = Some (s', rs))"
    using callingTick_can_return[OF assms(2)] by blast
qed

theorem host_called_invariant_witness:
  "role (party host89) = Host \<and> called_ok host89 \<and> draws_ok [179 / 180]
   \<and> length (called (game host89)) = 89
   \<and> run [Fire 4] host89 [179 / 180] = Some (host90, [])
   \<and> callingTick host89 [179 / 180] = Some (host90, [])
   \<and> called_ok host90 \<and> length (called (game host90)) = 90
   \<and> callingInterval host90 = Some 4 \<and> map_of (timers host90) 4 = None"
proof -
  have h: "role (party host89) = Host" by code_simp
  have c: "called_ok host89" by code_simp
  have d: "draws_ok [179 / 180]" by code_simp
  have l: "length (called (game host89)) = 89" by code_simp
  have r: "run [Fire 4] host89 [179 / 180] = Some (host90, [])" by code_simp
  have t: "callingTick host89 [179 / 180] = Some (host90, [])" by code_simp
  have i: "callingInterval host90 = Some 4" by code_simp
  have n: "length (called (game host90)) = 90" by code_simp
  show ?thesis
    using host_called_invariant [OF h c d, of "[Fire 4]" host90 "[]" host90 "[]"] h c d l r t i n
    by simp
qed

text \<open>
  The claim as the specification words it, for every host and with a draw loop that
  stops at 90 entries, fails in two ways. A peer that appended received numbers while it
  was not host keeps them when it becomes host: \<open>host_dup\<close> is host with the called list
  \<open>[5, 5]\<close>. And \<open>startCalling\<close> does not clear the interval it replaces in
  \<open>callingInterval\<close>: on \<open>host_two\<close> the tick that called the 90th number cleared the
  interval 8, and the draw interval 7 is still registered.
\<close>

theorem host_called_counterexample:
  "role (party host_dup) = Host \<and> called (game host_dup) = [5, 5]
   \<and> \<not> distinct (called (game host_dup))
   \<and> role (party host_two) = Host \<and> length (called (game host_two)) = 90
   \<and> callingInterval host_two = Some 8
   \<and> timers host_two = [(3, Timeout 5000 ClearStatus), (7, Interval 5000 CallNumber)]"
  by code_simp

text \<open>A peer whose election timeout (handle 1) is the first thing to happen after its
  constructor is a host with a duplicate-free list in \<open>[1, 90]\<close> from then on.\<close>

lemma elected_host_called_ok:
  assumes "draws_ok rs" "run (Fire 1 # evs) (constructor cid els u) rs = Some (s', rs')"
  shows "role (party s') = Host \<and> called_ok s' \<and> length (called (game s')) \<le> 90"
proof -
  let ?h = "possiblyAssumeHost (clearTimer (Some 1) (constructor cid els u))"
  have f: "step (Fire 1) (constructor cid els u) rs = Some (?h, rs)"
    by (simp add: fire_def constructor_def setInitialState_def getCurrentHost_def
        getGameHost_def send_def setTimer_def Let_def)
  have h: "role (party ?h) = Host" "called (game ?h) = []"
    by (simp_all add: possiblyAssumeHost_def becomeHost_def identifyAsHost_def addPlayer_def
        constructor_def setInitialState_def getCurrentHost_def getGameHost_def send_def
        setTimer_def Let_def)
  have r: "run evs ?h rs = Some (s', rs')" using assms(2) f by simp
  from run_host_inv[OF h(1) called_ok_empty[OF h(2)] assms(1) r]
  show ?thesis using distinct_in_1_90_length by (simp add: called_ok_def)
qed

text \<open>If the interval kept in \<open>callingInterval\<close> is the only draw interval registered, none
  is registered after the tick that fills the list.\<close>

lemma callingTick_stops_only_loop:
  assumes "callingTick s rs = Some (s', rs')" "length (called (game s')) = 90"
    "\<forall>(h, t)\<in>set (timers s). (\<exists>d. t = Interval d CallNumber) \<longrightarrow> callingInterval s = Some h"
  shows "\<forall>(h, t)\<in>set (timers s'). \<not> (\<exists>d. t = Interval d CallNumber)"
proof -
  obtain n rs0 where g: "generateRandomNumberNotAlreadyCalled 1 90 (called (game s)) rs = Some (n, rs0)"
    using assms(1) by (cases "generateRandomNumberNotAlreadyCalled 1 90 (called (game s)) rs")
      (auto simp: callingTick_def)
  have s': "s' = pauseCalling (callNumber n (called (game s) @ [n])
                   (s\<lparr>game := (game s)\<lparr>called := called (game s) @ [n]\<rparr>\<rparr>))"
    using assms(1,2) g by (auto simp: callingTick_def Let_def callNumber_def split: if_splits)
  show ?thesis
    using assms(3) by (cases "callingInterval s") (auto simp: s' pauseCalling_def callNumber_def send_def)
qed

text \<open>With all 90 numbers called no draw is new: a further tick never leaves the loop of
  \<open>generateRandomNumberNotAlreadyCalled\<close>.\<close>

lemma callingTick_exhausted:
  assumes "called_ok s" "length (called (game s)) = 90" "draws_ok rs"
  shows "callingTick s rs = None"
proof -
  have sub: "set (called (game s)) \<subseteq> {1..90}"
    using assms(1) by (auto simp: called_ok_def list_all_iff)
  have "Finite_Set.card (set (called (game s))) = Finite_Set.card {1..90::int}"
    using assms(1,2) by (simp add: called_ok_def distinct_card)
  then have full: "set (called (game s)) = {1..90}"
    using sub by (simp add: card_subset_eq)
  have "\<forall>u\<in>set rs. generateRandomNumber 1 90 u \<in> set (called (game s))"
  proof
    fix u assume "u \<in> set rs"
    then have "0 \<le> u \<and> u < 1" using assms(3) by (auto simp: draws_ok_def list_all_iff)
    then show "generateRandomNumber 1 90 u \<in> set (called (game s))"
      using generateRandomNumber_range[of 1 90 u] full by simp
  qed
  then have "generateRandomNumberNotAlreadyCalled 1 90 (called (game s)) rs = None"
    by (simp add: generateRandomNumberNotAlreadyCalled_None)
  then show ?thesis by (simp add: callingTick_def)
qed

text \<open>So it is with the draw interval that is left over on \<open>host_two\<close>.\<close>

lemma host_two_next_tick:
  assumes "draws_ok rs"
  shows "fire 7 host_two rs = None"
proof -
  have c: "called_ok host_two" by code_simp
  have l: "length (called (game host_two)) = 90" by code_simp
  have t: "map_of (timers host_two) 7 = Some (Interval 5000 CallNumber)" by code_simp
  show ?thesis using callingTick_exhausted[OF c l assms] t by (simp add: fire_def)
qed

section \<open>Delay of the claim outcome\<close>

lemma verifyClaim_called:
  "called (game s) = called (game t) \<Longrightarrow> verifyClaim s gamecard = verifyClaim t gamecard"
  by (simp add: verifyClaim_def)

lemma verifyClaim_after_pause [simp]:
  "verifyClaim (claimMade claimer (pauseCalling s)) gamecard = verifyClaim s gamecard"
  by (rule verifyClaim_called) (simp add: claimMade_def pauseCalling_def)

text \<open>
  Claim C9, as the code has it. When the host arbitrates a claim of a peer that is not
  disqualified, the outcome is scheduled after \<open>generateRandomNumber(4, 8) * 1000\<close> ms when
  the claim is valid and after \<open>generateRandomNumber(3, 6) * 1000\<close> ms when it is invalid:
  a whole number of seconds, one of 4, 5, 6, 7, 8, respectively one of 3, 4, 5, 6, both
  ends included, and each of these delays is scheduled on some draw.
\<close>

theorem commandClaim_outcome_delay:
  assumes "role (party s) = Host" "claimer \<notin> set (disqualified (game s))" "0 \<le> u" "u < 1"
  shows "(verifyClaim s gamecard \<longrightarrow>
            (\<exists>k. 4 \<le> k \<and> k \<le> 8 \<and>
               commandClaim claimer gamecard s (u # rs) =
                 Some (setTimer (Timeout (k * 1000) (AnnounceClaimValid claimer))
                                (claimMade claimer (pauseCalling s)), rs)) \<and>
            (\<forall>k. 4 \<le> k \<and> k \<le> 8 \<longrightarrow>
               (\<exists>u'. 0 \<le> u' \<and> u' < 1 \<and>
                  commandClaim claimer gamecard s (u' # rs) =
                    Some (setTimer (Timeout (k * 1000) (AnnounceClaimValid claimer))
                                   (claimMade claimer (pauseCalling s)), rs))))
       \<and> (\<not> verifyClaim s gamecard \<longrightarrow>
            (\<exists>k. 3 \<le> k \<and> k \<le> 6 \<and>
               commandClaim claimer gamecard s (u # rs) =
                 Some (setTimer (Timeout (k * 1000) (AnnounceClaimInvalid claimer))
                                (claimMade claimer (pauseCalling s)), rs)) \<and>
            (\<forall>k. 3 \<le> k \<and> k \<le> 6 \<longrightarrow>
               (\<exists>u'. 0 \<le> u' \<and> u' < 1 \<and>
                  commandClaim claimer gamecard s (u' # rs) =
                    Some (setTimer (Timeout (k * 1000) (AnnounceClaimInvalid claimer))
                                   (claimMade claimer (pauseCalling s)), rs))))"
proof (intro conjI impI allI)
  assume v: "verifyClaim s gamecard"
  have c: "commandClaim claimer gamecard s (w # rs) =
          Some (setTimer (Timeout (generateRandomNumber 4 8 w * 1000) (AnnounceClaimValid claimer))
                         (claimMade claimer (pauseCalling s)), rs)" for w
    using assms(1,2) v by (simp add: commandClaim_def Let_def)
  show "\<exists>k. 4 \<le> k \<and> k \<le> 8 \<and>
               commandClaim claimer gamecard s (u # rs) =
                 Some (setTimer (Timeout (k * 1000) (AnnounceClaimValid claimer))
                                (claimMade claimer (pauseCalling s)), rs)"
    using c[of u] generateRandomNumber_range[of 4 8 u] assms(3,4) by auto
  fix k :: int
  assume k: "4 \<le> k \<and> k \<le> 8"
  let ?w = "(of_int (k - 4) + 1 / 2) / of_int (8 - 4 + 1) :: real"
  have "generateRandomNumber 4 8 ?w = k"
    using k by (intro generateRandomNumber_centre) simp_all
  moreover have "0 \<le> ?w \<and> ?w < 1" using k by simp
  ultimately show "\<exists>u'. 0 \<le> u' \<and> u' < 1 \<and>
                  commandClaim claimer gamecard s (u' # rs) =
                    Some (setTimer (Timeout (k * 1000) (AnnounceClaimValid claimer))
                                   (claimMade claimer (pauseCalling s)), rs)"
    using c[of ?w] by (intro exI[of _ ?w]) simp
next
  assume v: "\<not> verifyClaim s gamecard"
  have c: "commandClaim claimer gamecard s (w # rs) =
          Some (setTimer (Timeout (generateRandomNumber 3 6 w * 1000) (AnnounceClaimInvalid claimer))
                         (claimMade claimer (pauseCalling s)), rs)" for w
    using assms(1,2) v by (simp add: commandClaim_def Let_def)
  show "\<exists>k. 3 \<le> k \<and> k \<le> 6 \<and>
               commandClaim claimer gamecard s (u # rs) =
                 Some (setTimer (Timeout (k * 1000) (AnnounceClaimInvalid claimer))
                                (claimMade claimer (pauseCalling s)), rs)"
    using c[of u] generateRandomNumber_range[of 3 6 u] assms(3,4) by auto
  fix k :: int
  assume k: "3 \<le> k \<and> k \<le> 6"
  let ?w = "(of_int (k - 3) + 1 / 2) / of_int (6 - 3 + 1) :: real"
  have "generateRandomNumber 3 6 ?w = k"
    using k by (intro generateRandomNumber_centre) simp_all
  moreover have "0 \<le> ?w \<and> ?w < 1" using k by simp
  ultimately show "\<exists>u'. 0 \<le> u' \<and> u' < 1 \<and>
                  commandClaim claimer gamecard s (u' # rs) =
                    Some (setTimer (Timeout (k * 1000) (AnnounceClaimInvalid claimer))
                                   (claimMade claimer (pauseCalling s)), rs)"
    using c[of ?w] by (intro exI[of _ ?w]) simp
qed

text \<open>On the example host: a valid claim on the draw \<open>9/10\<close> and an invalid one on the
  draw \<open>1/2\<close>.\<close>

theorem commandClaim_outcome_delay_witness:
  "role (party host1) = Host \<and> ''decaf'' \<notin> set (disqualified (game host1))
   \<and> verifyClaim host1 (card' (game host1)) \<and> \<not> verifyClaim host1 forged_card
   \<and> commandClaim ''decaf'' (card' (game host1)) host1 [9 / 10] =
       Some (setTimer (Timeout 8000 (AnnounceClaimValid ''decaf''))
                      (claimMade ''decaf'' (pauseCalling host1)), [])
   \<and> commandClaim ''decaf'' forged_card host1 [1 / 2] =
       Some (setTimer (Timeout 5000 (AnnounceClaimInvalid ''decaf''))
                      (claimMade ''decaf'' (pauseCalling host1)), [])"
proof -
  have a: "role (party host1) = Host" "''decaf'' \<notin> set (disqualified (game host1))"
    by (simp_all add: host1_eq)
  have v: "verifyClaim host1 (card' (game host1))" "\<not> verifyClaim host1 forged_card"
    by code_simp+
  have g: "generateRandomNumber 4 8 (9 / 10) = 8" "generateRandomNumber 3 6 (1 / 2) = 5"
    by (simp_all add: generateRandomNumber_def)
  have c1: "commandClaim ''decaf'' (card' (game host1)) host1 [9 / 10] =
       Some (setTimer (Timeout 8000 (AnnounceClaimValid ''decaf''))
                      (claimMade ''decaf'' (pauseCalling host1)), [])"
    using a v g by (simp add: commandClaim_def Let_def)
  have c2: "commandClaim ''decaf'' forged_card host1 [1 / 2] =
       Some (setTimer (Timeout 5000 (AnnounceClaimInvalid ''decaf''))
                      (claimMade ''decaf'' (pauseCalling host1)), [])"
    using a v g by (simp add: commandClaim_def Let_def)
  have "\<exists>k. 4 \<le> k \<and> k \<le> 8 \<and>
          commandClaim ''decaf'' (card' (game host1)) host1 [9 / 10] =
            Some (setTimer (Timeout (k * 1000) (AnnounceClaimValid ''decaf''))
                           (claimMade ''decaf'' (pauseCalling host1)), [])"
    using commandClaim_outcome_delay [OF a, of "9 / 10" "card' (game host1)" "[]"] v by simp
  moreover have "\<exists>k. 3 \<le> k \<and> k \<le> 6 \<and>
          commandClaim ''decaf'' forged_card host1 [1 / 2] =
            Some (setTimer (Timeout (k * 1000) (AnnounceClaimInvalid ''decaf''))
                           (claimMade ''decaf'' (pauseCalling host1)), [])"
    using commandClaim_outcome_delay [OF a, of "1 / 2" forged_card "[]"] v by simp
  ultimately show ?thesis using a v c1 c2 by simp
qed

text \<open>The claim as the specification words it, with the delay in the half-open interval
  \<open>[4, 8)\<close> seconds, fails: on the draw \<open>9/10\<close> a valid claim is answered after 8000 ms.\<close>

theorem commandClaim_delay_counterexample:
  "verifyClaim host1 (card' (game host1)) \<and>
   commandClaim ''decaf'' (card' (game host1)) host1 [9 / 10] =
     Some (host1\<lparr>sent := sent host1 @ [ClaimMade ''decaf''],
                 timers := [(3, Timeout 5000 ClearStatus),
                            (5, Timeout 8000 (AnnounceClaimValid ''decaf''))],
                 nextHandle := 6\<rparr>, [])
   \<and> \<not> (8000 :: int) < 8 * 1000"
  by code_simp

section \<open>The empty card\<close>

text \<open>
  Claim C10. For the empty card the row loop yields no row, the five columns are empty
  arrays, and \<open>every\<close> holds of an empty array, so \<open>verifyClaim\<close> answers true whatever
  has been called. A host that receives such a claim from a peer that is not disqualified
  therefore schedules the \<open>claimvalid\<close> announcement for that peer, and the scheduled
  callback sends it.
\<close>

theorem verifyClaim_empty_card:
  "rows_loop 0 ([] :: int list) [] = [] \<and> columns_of ([] :: int list) = [[], [], [], [], []]
   \<and> verifyClaim s []
   \<and> (role (party s) = Host \<and> claimer \<notin> set (disqualified (game s)) \<longrightarrow>
        commandClaim claimer [] s (u # rs) =
          Some (setTimer (Timeout (generateRandomNumber 4 8 u * 1000) (AnnounceClaimValid claimer))
                         (claimMade claimer (pauseCalling s)), rs))
   \<and> runAction (AnnounceClaimValid claimer) t rs = Some (t\<lparr>sent := sent t @ [ClaimValid claimer]\<rparr>, rs)"
proof -
  have r: "rows_loop 0 ([] :: int list) [] = []" by simp
  have c: "columns_of ([] :: int list) = [[], [], [], [], []]"
    by (simp add: columns_of_def filter_index_def upt_rec)
  have v: "verifyClaim t' []" for t'
    by (simp add: verifyClaim_def r c)
  show ?thesis using r c v by (simp add: commandClaim_def claimValid_def send_def Let_def)
qed

theorem verifyClaim_empty_card_witness:
  "role (party host1) = Host \<and> ''decaf'' \<notin> set (disqualified (game host1))
   \<and> verifyClaim host1 []
   \<and> commandClaim ''decaf'' [] host1 [1 / 2] =
       Some (setTimer (Timeout 6000 (AnnounceClaimValid ''decaf''))
                      (claimMade ''decaf'' (pauseCalling host1)), [])"
proof -
  have a: "role (party host1) = Host \<and> ''decaf'' \<notin> set (disqualified (game host1))"
    by (simp add: host1_eq)
  have g: "generateRandomNumber 4 8 (1 / 2) = 6"
    by (simp add: generateRandomNumber_def)
  show ?thesis
    using verifyClaim_empty_card [of host1 "''decaf''" "1 / 2" "[]" host1] a g by simp
qed

end
